theory Spec2Isabelle
  imports Main "HOL-Library.Sublist"
begin

section \<open>Time values\<close>

text \<open>
  A \<open>time.Duration\<close> is a signed count of nanoseconds; a \<open>time.Time\<close> is read here as
  the number of nanoseconds of the instant on one clock. Both are integers; the
  64-bit bounds of a duration are written out where the library saturates.
\<close>

type_synonym Duration = int
type_synonym Time = int

definition Nanosecond :: Duration where "Nanosecond = 1"
definition Microsecond :: Duration where "Microsecond = 1000 * Nanosecond"
definition Millisecond :: Duration where "Millisecond = 1000 * Microsecond"
definition Second :: Duration where "Second = 1000 * Millisecond"
definition Minute :: Duration where "Minute = 60 * Second"

text \<open>\<open>Time.Add\<close> and \<open>Time.Before\<close>.\<close>

definition Add :: "Time \<Rightarrow> Duration \<Rightarrow> Time" where
  "Add t d = t + d"

definition Before :: "Time \<Rightarrow> Time \<Rightarrow> bool" where
  "Before t u \<longleftrightarrow> t < u"

section \<open>The progress throttle (main.go, shouldPrint)\<close>

text \<open>
  The switch of \<open>shouldPrint\<close> that picks \<open>durToUse\<close>, its cases in the order of the
  source.
\<close>

definition durToUse :: "Duration \<Rightarrow> Duration" where
  "durToUse duration =
     (if duration > 25 * Minute then 3 * Minute
      else if duration > 8 * Minute then 2 * Minute
      else if duration > 5 * Minute then 30 * Second
      else if duration > 3 * Minute then 20 * Second
      else if duration > Minute then 15 * Second
      else 10 * Second)"

text \<open>
  \<open>shouldPrint\<close> reads the clock once (\<open>now := time.Now()\<close>); the reading is the first
  argument.
\<close>

definition shouldPrint :: "Time \<Rightarrow> Time \<Rightarrow> Duration \<Rightarrow> bool" where
  "shouldPrint now lastPrinted duration = Before (Add lastPrinted (durToUse duration)) now"

text \<open>
  The interval table of the specification, written from its rows: each row is a
  half-open bucket of elapsed time with its minimum interval between prints.
\<close>

definition spec_interval :: "Duration \<Rightarrow> Duration" where
  "spec_interval elapsed =
     (if elapsed \<le> 1 * Minute then 10 * Second
      else if 1 * Minute < elapsed \<and> elapsed \<le> 3 * Minute then 15 * Second
      else if 3 * Minute < elapsed \<and> elapsed \<le> 5 * Minute then 20 * Second
      else if 5 * Minute < elapsed \<and> elapsed \<le> 8 * Minute then 30 * Second
      else if 8 * Minute < elapsed \<and> elapsed \<le> 25 * Minute then 2 * Minute
      else 3 * Minute)"

section \<open>Byte buffers and slice expressions\<close>

text \<open>
  A \<open>[]byte\<close> is a list of characters (a character is one byte). An index is a Go
  \<open>int\<close>, modelled as an integer. The slice expressions \<open>s[:j]\<close> and \<open>s[i:]\<close> panic
  when the index is out of range; the panic is the value \<open>None\<close>. The bound is the
  length of the buffer.
\<close>

type_synonym bytes = "char list"

definition nl :: char where
  "nl = CHR 0x0A"

definition slice_to :: "bytes \<Rightarrow> int \<Rightarrow> bytes option" where
  "slice_to s j = (if 0 \<le> j \<and> j \<le> int (length s) then Some (take (nat j) s) else None)"

definition slice_from :: "bytes \<Rightarrow> int \<Rightarrow> bytes option" where
  "slice_from s i = (if 0 \<le> i \<and> i \<le> int (length s) then Some (drop (nat i) s) else None)"

text \<open>
  \<open>bytes.LastIndexByte(s, c)\<close>: the index of the last \<open>c\<close> in \<open>s\<close>, or \<open>-1\<close>. The scan
  runs from the last byte down to the first.
\<close>

fun lastIndexBelow :: "bytes \<Rightarrow> char \<Rightarrow> nat \<Rightarrow> int" where
  "lastIndexBelow s c 0 = - 1"
| "lastIndexBelow s c (Suc i) = (if s ! i = c then int i else lastIndexBelow s c i)"

definition LastIndexByte :: "bytes \<Rightarrow> char \<Rightarrow> int" where
  "LastIndexByte s c = lastIndexBelow s c (length s)"

text \<open>\<open>bytes.IndexByte(s, c)\<close>: the index of the first \<open>c\<close> in \<open>s\<close>, or \<open>-1\<close>.\<close>

fun IndexByte :: "bytes \<Rightarrow> char \<Rightarrow> int" where
  "IndexByte [] c = - 1"
| "IndexByte (x # xs) c =
     (if x = c then 0 else (let r = IndexByte xs c in if r = - 1 then - 1 else r + 1))"

section \<open>The log tail extractor (lib, findBuildFailure)\<close>

text \<open>
  The loop \<open>for count := 0; count < numOutputLines; count++\<close> of \<open>findBuildFailure\<close>,
  entered with the current values of \<open>count\<close> and \<open>newlineIdx\<close>. Leaving the loop
  returns \<open>log[newlineIdx:]\<close>.
\<close>

function findBuildFailure_loop :: "bytes \<Rightarrow> int \<Rightarrow> int \<Rightarrow> int \<Rightarrow> bytes option" where
  "findBuildFailure_loop log numOutputLines count newlineIdx =
     (if count < numOutputLines then
        (case slice_to log (newlineIdx - 1) of
           None \<Rightarrow> None
         | Some pre \<Rightarrow>
             (let prevNewlineIdx = LastIndexByte pre nl in
              if prevNewlineIdx = - 1 then Some log
              else findBuildFailure_loop log numOutputLines (count + 1) (prevNewlineIdx + 1)))
      else slice_from log newlineIdx)"
  by pat_completeness auto
termination
  by (relation "measure (\<lambda>(log, numOutputLines, count, newlineIdx). nat (numOutputLines - count))") auto

definition findBuildFailure :: "bytes \<Rightarrow> int \<Rightarrow> bytes option" where
  "findBuildFailure log numOutputLines =
     (if length log = 0 then Some log
      else findBuildFailure_loop log numOutputLines 0 (int (length log)))"

text \<open>
  The values \<open>newlineIdx\<close> holds during a run of the loop: the value at each test of
  the loop condition, in order.
\<close>

function newlineIdx_values :: "bytes \<Rightarrow> int \<Rightarrow> int \<Rightarrow> int \<Rightarrow> int list" where
  "newlineIdx_values log numOutputLines count newlineIdx =
     newlineIdx #
     (if count < numOutputLines then
        (case slice_to log (newlineIdx - 1) of
           None \<Rightarrow> []
         | Some pre \<Rightarrow>
             (let prevNewlineIdx = LastIndexByte pre nl in
              if prevNewlineIdx = - 1 then []
              else newlineIdx_values log numOutputLines (count + 1) (prevNewlineIdx + 1)))
      else [])"
  by pat_completeness auto
termination
  by (relation "measure (\<lambda>(log, numOutputLines, count, newlineIdx). nat (numOutputLines - count))") auto

text \<open>
  The lines of a buffer, for the statement of the extractor's result: each line
  keeps its newline, and bytes after the last newline form a last line of their
  own.
\<close>

fun split_lines :: "bytes \<Rightarrow> bytes list" where
  "split_lines [] = []"
| "split_lines (c # cs) =
     (if c = nl then [c] # split_lines cs
      else (case split_lines cs of [] \<Rightarrow> [[c]] | l # ls \<Rightarrow> (c # l) # ls))"

text \<open>The number of newline-terminated lines of a buffer is its number of newlines.\<close>

definition terminated_lines :: "bytes \<Rightarrow> nat" where
  "terminated_lines log = length (filter (\<lambda>c. c = nl) log)"

text \<open>The last \<open>n\<close> lines of a buffer.\<close>

definition last_lines :: "nat \<Rightarrow> bytes \<Rightarrow> bytes" where
  "last_lines n log = concat (drop (length (split_lines log) - n) (split_lines log))"

section \<open>Errors of the network stack\<close>

text \<open>
  The error values that \<open>isHttpError\<close> tells apart, with the fields and methods of
  the Go standard library that it reads. \<open>UrlError\<close> is \<open>*url.Error\<close> (\<open>Op\<close>, \<open>URL\<close>, \<open>Err\<close>),
  \<open>OpError\<close> is \<open>*net.OpError\<close> (\<open>Op\<close>, \<open>Net\<close>, \<open>Err\<close>), \<open>DNSError\<close> is \<open>*net.DNSError\<close>
  (\<open>Err\<close>, \<open>Name\<close>, \<open>IsTimeout\<close>), \<open>UnknownNetworkError\<close> is the string type of that
  name. \<open>NetError\<close> stands for any other type with the methods \<open>Timeout()\<close> and
  \<open>Temporary()\<close> of the interface \<open>net.Error\<close>, with the result of its \<open>Timeout()\<close>;
  \<open>TimeoutError\<close> for a type that has \<open>Timeout()\<close> but not \<open>Temporary()\<close> (such as
  \<open>*os.SyscallError\<close>); \<open>PlainError\<close> for a type with neither. An \<open>Err\<close> field may be
  nil (\<open>None\<close>).
\<close>

datatype error =
    UrlError string string "error option"
  | OpError string string "error option"
  | DNSError string string bool
  | UnknownNetworkError string
  | NetError string bool
  | TimeoutError string bool
  | PlainError string

text \<open>Whether the dynamic type has a method \<open>Timeout() bool\<close>.\<close>

fun hasTimeout :: "error \<Rightarrow> bool" where
  "hasTimeout (PlainError msg) = False"
| "hasTimeout e = True"

text \<open>Whether the dynamic type implements \<open>net.Error\<close> (\<open>Timeout()\<close> and \<open>Temporary()\<close>).\<close>

fun implementsNetError :: "error \<Rightarrow> bool" where
  "implementsNetError (PlainError msg) = False"
| "implementsNetError (TimeoutError msg t) = False"
| "implementsNetError e = True"

text \<open>
  The method \<open>Timeout()\<close> of each type. \<open>*url.Error\<close> and \<open>*net.OpError\<close> ask their
  \<open>Err\<close> when it has the method; \<open>*net.DNSError\<close> returns \<open>IsTimeout\<close>;
  \<open>UnknownNetworkError\<close> returns false.
\<close>

fun Timeout :: "error \<Rightarrow> bool" where
  "Timeout (UrlError op url None) = False"
| "Timeout (UrlError op url (Some e)) = (hasTimeout e \<and> Timeout e)"
| "Timeout (OpError op net None) = False"
| "Timeout (OpError op net (Some e)) = (hasTimeout e \<and> Timeout e)"
| "Timeout (DNSError msg name isTimeout) = isTimeout"
| "Timeout (UnknownNetworkError msg) = False"
| "Timeout (NetError msg t) = t"
| "Timeout (TimeoutError msg t) = t"
| "Timeout (PlainError msg) = False"

section \<open>The error classifier (main.go, isHttpError)\<close>

text \<open>
  The type switch of \<open>isHttpError\<close>, on the error left after the unwrapping step. A
  nil interface value takes the default case. The cases are tried in the order of
  the source: \<open>*net.OpError\<close>, \<open>*net.DNSError\<close>, \<open>net.Error\<close>, default.
\<close>

fun isHttpError_switch :: "error option \<Rightarrow> bool" where
  "isHttpError_switch None = False"
| "isHttpError_switch (Some (OpError op net e)) = (op = ''dial'' \<and> net = ''tcp'')"
| "isHttpError_switch (Some (DNSError msg name isTimeout)) = True"
| "isHttpError_switch (Some e) = (if implementsNetError e then Timeout e else False)"

text \<open>The assignment \<open>err = uerr.Err\<close> when \<open>err\<close> is a \<open>*url.Error\<close>.\<close>

fun unwrapUrlError :: "error \<Rightarrow> error option" where
  "unwrapUrlError (UrlError op url e) = e"
| "unwrapUrlError e = Some e"

fun isHttpError :: "error option \<Rightarrow> bool" where
  "isHttpError None = False"
| "isHttpError (Some err) = isHttpError_switch (unwrapUrlError err)"

section \<open>Durations of the time package\<close>

text \<open>
  A duration is a 64-bit signed integer. \<open>Time.Sub\<close> saturates at the smallest and
  largest duration. \<open>Duration.Round\<close> rounds to the nearest multiple of \<open>m\<close>, halfway
  values away from zero; its additions are 64-bit (\<open>wrap64\<close>) and a result that
  wrapped is replaced by the smallest or largest duration. The operator \<open>%\<close> of Go
  truncates towards zero (\<open>go_rem\<close>).
\<close>

definition minDuration :: Duration where "minDuration = - (2 ^ 63)"
definition maxDuration :: Duration where "maxDuration = 2 ^ 63 - 1"

definition wrap64 :: "int \<Rightarrow> int" where
  "wrap64 x = (x + 2 ^ 63) mod 2 ^ 64 - 2 ^ 63"

definition go_rem :: "int \<Rightarrow> int \<Rightarrow> int" where
  "go_rem a b = sgn a * (\<bar>a\<bar> mod \<bar>b\<bar>)"

definition Sub :: "Time \<Rightarrow> Time \<Rightarrow> Duration" where
  "Sub t u =
     (if t - u < minDuration then minDuration
      else if t - u > maxDuration then maxDuration
      else t - u)"

definition lessThanHalf :: "Duration \<Rightarrow> Duration \<Rightarrow> bool" where
  "lessThanHalf x y \<longleftrightarrow> x + x < y"

definition Round :: "Duration \<Rightarrow> Duration \<Rightarrow> Duration" where
  "Round d m =
     (if m \<le> 0 then d
      else
        (let r = go_rem d m in
         if d < 0 then
           (let r = - r in
            if lessThanHalf r m then wrap64 (d + r)
            else (let d1 = wrap64 (d - m + r) in if d1 < d then d1 else minDuration))
         else
           (if lessThanHalf r m then wrap64 (d - r)
            else (let d1 = wrap64 (d + m - r) in if d1 > d then d1 else maxDuration))))"

section \<open>Workflow runs (lib.go)\<close>

text \<open>The fields of \<open>WorkflowRun\<close> that the monitor reads.\<close>

record WorkflowRun =
  ID :: int
  Name :: string
  RunNumber :: int
  Status :: string
  Conclusion :: "string option"
  HTMLURL :: string
  UpdatedAt :: Time
  RunStartedAt :: "Time option"
  PullRequests :: "int list"

definition IsCompleted :: "WorkflowRun \<Rightarrow> bool" where
  "IsCompleted r \<longleftrightarrow> Status r = ''completed''"

definition IsSuccess :: "WorkflowRun \<Rightarrow> bool" where
  "IsSuccess r \<longleftrightarrow> IsCompleted r \<and> Conclusion r \<noteq> None \<and> Conclusion r = Some ''success''"

definition IsFailed :: "WorkflowRun \<Rightarrow> bool" where
  "IsFailed r =
     (if \<not> IsCompleted r \<or> Conclusion r = None then False
      else (let c = the (Conclusion r) in
            c = ''failure'' \<or> c = ''cancelled'' \<or> c = ''timed_out''))"

text \<open>
  \<open>Duration()\<close>. The reading of \<open>time.Now()\<close> for a run that is not completed is the
  first argument.
\<close>

definition Duration :: "Time \<Rightarrow> WorkflowRun \<Rightarrow> Duration" where
  "Duration now r =
     (case RunStartedAt r of
        None \<Rightarrow> 0
      | Some start \<Rightarrow>
          (let end = (if IsCompleted r then UpdatedAt r else now)
           in Round (Sub end start) Second))"

section \<open>Jobs and library functions of the summary (lib)\<close>

text \<open>The fields of \<open>Job\<close> that the summary reads, and \<open>Failed()\<close>.\<close>

record Job =
  JobID :: int
  JobName :: string
  JobConclusion :: "string option"
  StartedAt :: "Time option"
  CompletedAt :: "Time option"

definition Failed :: "Job \<Rightarrow> bool" where
  "Failed j \<longleftrightarrow> JobConclusion j \<noteq> None \<and> JobConclusion j = Some ''failure''"

text \<open>
  The functions of the Go standard library that the summary calls and whose code is
  not part of the repository are parameters of the model: \<open>Duration.String()\<close>, the
  bytes that a \<open>tabwriter.NewWriter(&buf, 0, 0, 1, ' ', 0)\<close> has put into \<open>buf\<close> after
  \<open>Flush()\<close> as a function of the bytes written to it, and \<open>Error()\<close> of an error.
\<close>

record lib =
  DurationString :: "Duration \<Rightarrow> bytes"
  TabwriterOutput :: "bytes \<Rightarrow> bytes"
  ErrorString :: "error \<Rightarrow> bytes"

text \<open>
  The verb \<open>%d\<close> of \<open>fmt\<close> on an \<open>int\<close>, and the verb \<open>%-8s\<close>: the text padded on the
  right with spaces to eight characters. The characters of a text are counted as
  the bytes that are not UTF-8 continuation bytes.
\<close>

function decimal :: "int \<Rightarrow> bytes" where
  "decimal n = (if n < 10 then [char_of (48 + n)] else decimal (n div 10) @ [char_of (48 + n mod 10)])"
  by pat_completeness auto
termination
  by (relation "measure nat") auto

declare decimal.simps [simp del]

definition itoa :: "int \<Rightarrow> bytes" where
  "itoa i = (if i < 0 then CHR ''-'' # decimal (- i) else decimal i)"

definition rune_count :: "bytes \<Rightarrow> nat" where
  "rune_count s = length (filter (\<lambda>c. \<not> (128 \<le> (of_char c :: nat) \<and> (of_char c :: nat) < 192)) s)"

definition pad_right :: "nat \<Rightarrow> bytes \<Rightarrow> bytes" where
  "pad_right w s = s @ replicate (w - rune_count s) (CHR '' '')"

definition esc :: char where
  "esc = CHR 0x1B"

section \<open>The job summary builder (lib, buildJobsSummary)\<close>

text \<open>
  The text of one job's line as written to the tabwriter: the duration is
  \<open>CompletedAt - StartedAt\<close> when both are present and zero otherwise, rounded to a
  second above one minute and to ten milliseconds otherwise; its text is wrapped in
  the colour escape sequence when the job failed and \<open>isatty()\<close> is true.
\<close>

definition jobDuration :: "Job \<Rightarrow> Duration" where
  "jobDuration job =
     (let duration = (if StartedAt job \<noteq> None \<and> CompletedAt job \<noteq> None
                      then Sub (the (CompletedAt job)) (the (StartedAt job)) else 0)
      in if duration > Minute then Round duration Second
         else Round duration (10 * Millisecond))"

definition durString :: "bool \<Rightarrow> lib \<Rightarrow> Job \<Rightarrow> bytes" where
  "durString isatty l job =
     (if Failed job \<and> isatty
      then esc # ''[38;05;160m'' @ pad_right 8 (DurationString l (jobDuration job)) @ esc # ''[0m''
      else DurationString l (jobDuration job))"

definition tab :: char where
  "tab = CHR 0x09"

definition jobLine :: "bool \<Rightarrow> lib \<Rightarrow> Job \<Rightarrow> bytes" where
  "jobLine isatty l job = JobName job @ [tab] @ durString isatty l job @ [nl]"

text \<open>
  The loop over the jobs, with the bytes written to the tabwriter so far and the
  value of \<open>failedJob\<close>. The result of \<open>isatty()\<close> is the first argument.
\<close>

fun buildJobsSummary_loop :: "bool \<Rightarrow> lib \<Rightarrow> Job list \<Rightarrow> bytes \<times> Job option \<Rightarrow> bytes \<times> Job option" where
  "buildJobsSummary_loop isatty l [] acc = acc"
| "buildJobsSummary_loop isatty l (job # jobs) (written, failedJob) =
     buildJobsSummary_loop isatty l jobs
       (written @ jobLine isatty l job,
        if Failed job \<and> failedJob = None then Some job else failedJob)"

definition buildJobsSummary :: "bool \<Rightarrow> lib \<Rightarrow> Job list \<Rightarrow> bytes \<times> Job option" where
  "buildJobsSummary isatty l jobs =
     (let (written, failedJob) = buildJobsSummary_loop isatty l jobs ([], None)
      in (nl # TabwriterOutput l written, failedJob))"

section \<open>The world of a session and its trace\<close>

text \<open>
  What a session prints, one constructor for each print statement of \<open>doWait\<close>
  with the values it formats.
\<close>

datatype printed =
    OutWaiting string
  | OutNetworkError error
  | OutNoRuns string
  | OutStdout bytes
  | OutFailedURL string
  | OutWorkflow string int
  | OutRule
  | OutTook string Duration
  | OutLink string
  | OutPullRequest int
  | OutTree string
  | OutStatus string string Duration

text \<open>
  Every interaction of a session with the outside is an event of its trace: a call
  of the GitHub API (a poll for the runs of the commit with the answer it got), a
  reading of the clock, a \<open>select\<close> between \<open>ctx.Done()\<close> and a timer, a print, a
  notification.
\<close>

datatype event =
    CallFindWorkflowRunsForCommit "error + WorkflowRun list"
  | CallListJobs int
  | CallGetJobLogs int
  | ReadClock
  | Select Duration
  | Print printed
  | Display string

text \<open>
  The world answers each interaction. An answer may depend on the number of events
  before it (the length of the trace), so that a call repeated later may return
  something else. \<open>ctxDone\<close> tells whether the case \<open>ctx.Done()\<close> of a \<open>select\<close> is taken;
  \<open>isatty\<close> is whether standard output is a terminal.
\<close>

record world =
  FindWorkflowRunsForCommit :: "nat \<Rightarrow> error + WorkflowRun list"
  ListJobs :: "nat \<Rightarrow> int \<Rightarrow> error + Job list"
  GetJobLogs :: "nat \<Rightarrow> int \<Rightarrow> error + bytes"
  Now :: "nat \<Rightarrow> Time"
  ctxDone :: "nat \<Rightarrow> bool"
  ctxErr :: error
  isatty :: bool

section \<open>The summaries of a run (lib, BuildJobsSummary and BuildSummary)\<close>

definition BuildJobsSummary :: "world \<Rightarrow> lib \<Rightarrow> WorkflowRun \<Rightarrow> event list \<Rightarrow> event list \<times> bytes" where
  "BuildJobsSummary w l run tr =
     (case ListJobs w (length tr) (ID run) of
        Inl err \<Rightarrow>
          (tr @ [CallListJobs (ID run)], nl # ''Error fetching jobs: '' @ ErrorString l err @ [nl])
      | Inr jobs \<Rightarrow>
          (tr @ [CallListJobs (ID run)], fst (buildJobsSummary (isatty w) l jobs)))"

text \<open>
  The part of \<open>BuildSummary\<close> after \<open>buildJobsSummary\<close>: \<open>failure\<close> is the log excerpt
  (empty when there is none). \<open>summary[1:]\<close> panics on an empty summary; a panic is
  the value \<open>None\<close>.
\<close>

definition renderSummary :: "bytes \<Rightarrow> bytes \<Rightarrow> int \<Rightarrow> bytes option" where
  "renderSummary summary failure numOutputLines =
     (case slice_from summary 1 of
        None \<Rightarrow> None
      | Some rest \<Rightarrow>
          (let linelen = IndexByte rest nl;
               buf2 = [nl];
               buf2 = (if linelen > 0 then buf2 @ replicate (nat linelen) (CHR ''='') else buf2);
               buf2 = (if length failure > 0
                       then buf2 @ [nl] @ ''Last '' @ itoa numOutputLines
                              @ '' lines of failed build output:'' @ [nl, nl] @ failure
                       else buf2)
           in Some (summary @ buf2)))"

definition BuildSummary ::
  "world \<Rightarrow> lib \<Rightarrow> WorkflowRun \<Rightarrow> int \<Rightarrow> event list \<Rightarrow> event list \<times> bytes option" where
  "BuildSummary w l run numOutputLines tr =
     (case ListJobs w (length tr) (ID run) of
        Inl err \<Rightarrow>
          (tr @ [CallListJobs (ID run)],
           Some (nl # ''Error fetching jobs: '' @ ErrorString l err @ [nl]))
      | Inr jobs \<Rightarrow>
          (let tr1 = tr @ [CallListJobs (ID run)];
               (summary, failedJob) = buildJobsSummary (isatty w) l jobs
           in case failedJob of
                None \<Rightarrow> (tr1, renderSummary summary [] numOutputLines)
              | Some job \<Rightarrow>
                  (let tr2 = tr1 @ [CallGetJobLogs (JobID job)]
                   in case GetJobLogs w (length tr1) (JobID job) of
                        Inl err \<Rightarrow> (tr2, renderSummary summary [] numOutputLines)
                      | Inr logs \<Rightarrow>
                          (case findBuildFailure logs numOutputLines of
                             None \<Rightarrow> (tr2, None)
                           | Some failure \<Rightarrow> (tr2, renderSummary summary failure numOutputLines)))))"

section \<open>An instance of the library functions\<close>

text \<open>
  \<open>Duration.String()\<close> as the package \<open>time\<close> computes it: below one second the unit
  is \<open>ns\<close>, \<open>\<mu>s\<close> or \<open>ms\<close> with the fraction after the point, trailing zeros dropped;
  from one second on, hours, minutes and seconds with a fraction of up to nine
  digits. \<open>fmtFrac\<close> produces the fraction of \<open>v / 10 ^ prec\<close> and the quotient.
\<close>

fun fmtFrac_loop :: "nat \<Rightarrow> int \<Rightarrow> bool \<Rightarrow> bytes \<Rightarrow> bytes \<times> int \<times> bool" where
  "fmtFrac_loop 0 v pr buf = (buf, v, pr)"
| "fmtFrac_loop (Suc i) v pr buf =
     (let digit = v mod 10; pr = (pr \<or> digit \<noteq> 0)
      in fmtFrac_loop i (v div 10) pr (if pr then char_of (48 + digit) # buf else buf))"

definition fmtFrac :: "int \<Rightarrow> nat \<Rightarrow> bytes \<times> int" where
  "fmtFrac v prec =
     (let (buf, v, pr) = fmtFrac_loop prec v False []
      in (if pr then CHR ''.'' # buf else buf, v))"

definition Duration_String :: "Duration \<Rightarrow> bytes" where
  "Duration_String d =
     (let u = \<bar>d\<bar>;
          text =
            (if u < 1000000000 then
               (if u = 0 then ''0s''
                else if u < 1000 then (let (frac, v) = fmtFrac u 0 in decimal v @ frac @ ''ns'')
                else if u < 1000000 then
                  (let (frac, v) = fmtFrac u 3 in decimal v @ frac @ [CHR 0xC2, CHR 0xB5] @ ''s'')
                else (let (frac, v) = fmtFrac u 6 in decimal v @ frac @ ''ms''))
             else
               (let (frac, v) = fmtFrac u 9;
                    secs = decimal (v mod 60) @ frac @ ''s'';
                    v = v div 60
                in if v > 0 then
                     (let mins = decimal (v mod 60) @ ''m'' @ secs; v = v div 60
                      in if v > 0 then decimal v @ ''h'' @ mins else mins)
                   else secs))
      in if d < 0 then CHR ''-'' # text else text)"

text \<open>
  The output of the tabwriter of \<open>buildJobsSummary\<close> (cells end at a tab, minimal
  width 0, padding 1, padded with spaces, no flags), for a text whose lines have
  the form cell, tab, rest, newline, where cell and rest hold no tab, newline,
  vertical tab, form feed or byte \<open>0xFF\<close>: all lines form one column, as wide as the
  widest cell plus the padding, and the rest of a line follows its padded cell.
\<close>

definition tabwriter_cell :: "bytes \<Rightarrow> bytes" where
  "tabwriter_cell line = takeWhile (\<lambda>c. c \<noteq> tab) line"

definition tabwriter_columns :: "bytes \<Rightarrow> bytes" where
  "tabwriter_columns written =
     (let lines = split_lines written;
          width = fold max (map (\<lambda>line. rune_count (tabwriter_cell line))
                             (filter (\<lambda>line. tab \<in> set line) lines)) 0 + 1
      in concat (map (\<lambda>line.
                   if tab \<in> set line
                   then pad_right width (tabwriter_cell line) @ tl (dropWhile (\<lambda>c. c \<noteq> tab) line)
                   else line) lines))"

text \<open>
  The text of an error, for the error values of the model: the message of a value
  that carries one, and the formats of the package \<open>net\<close> and \<open>net/url\<close> for the
  structured ones (without source and destination addresses, and for a URL that
  the verb \<open>%q\<close> leaves unescaped).
\<close>

fun error_text :: "error \<Rightarrow> bytes" where
  "error_text (UrlError op url None) = op @ '' \"'' @ url @ ''\": %!s(<nil>)''"
| "error_text (UrlError op url (Some e)) = op @ '' \"'' @ url @ ''\": '' @ error_text e"
| "error_text (OpError op net None) = op @ (if net = [] then [] else '' '' @ net) @ '': ''"
| "error_text (OpError op net (Some e)) =
     op @ (if net = [] then [] else '' '' @ net) @ '': '' @ error_text e"
| "error_text (DNSError msg name isTimeout) = ''lookup '' @ name @ '': '' @ msg"
| "error_text (UnknownNetworkError msg) = ''unknown network '' @ msg"
| "error_text (NetError msg t) = msg"
| "error_text (TimeoutError msg t) = msg"
| "error_text (PlainError msg) = msg"

definition golib :: lib where
  "golib = \<lparr>DurationString = Duration_String, TabwriterOutput = tabwriter_columns,
            ErrorString = error_text\<rparr>"

text \<open>
  The report without a log excerpt: the summary, a newline and a rule of \<open>=\<close> as long
  as the first line of the table. The header that precedes a log excerpt.
\<close>

definition tableOnly :: "bytes \<Rightarrow> bytes" where
  "tableOnly summary = summary @ nl # replicate (nat (IndexByte (tl summary) nl)) (CHR ''='')"

definition excerptHeader :: "int \<Rightarrow> bytes" where
  "excerptHeader numOutputLines =
     [nl] @ ''Last '' @ itoa numOutputLines @ '' lines of failed build output:'' @ [nl, nl]"

section \<open>The run monitor (main.go, doWait)\<close>

text \<open>
  How a call of \<open>doWait\<close> ends: it returns an error or nil, or it panics.
\<close>

datatype outcome = Returned "error option" | Panicked

text \<open>
  What one pass through the body of the loop decides: go round again, with the
  new value of \<open>lastPrintedAt\<close>, or leave \<open>doWait\<close>.
\<close>

datatype step = Continue Time | Done outcome

text \<open>
  The arguments of a session: the result of \<open>git.Tip(branch)\<close>, the branch and the
  number of log lines to show.
\<close>

record params =
  Tip :: "error + string"
  branch :: string
  numOutputLines :: int

text \<open>The zero value of \<open>time.Time\<close>: the first instant of year 1, UTC.\<close>

definition zeroTime :: Time where
  "zeroTime = - 62135596800 * Second"

definition readClock :: "world \<Rightarrow> event list \<Rightarrow> event list \<times> Time" where
  "readClock w tr = (tr @ [ReadClock], Now w (length tr))"

definition selectDone :: "world \<Rightarrow> Duration \<Rightarrow> event list \<Rightarrow> event list \<times> bool" where
  "selectDone w d tr = (tr @ [Select d], ctxDone w (length tr))"

text \<open>
  \<open>run.Duration()\<close> inside a session: the clock is read when the run has a start
  timestamp and is not completed, and in no other case.
\<close>

definition runDuration :: "world \<Rightarrow> WorkflowRun \<Rightarrow> event list \<Rightarrow> event list \<times> Duration" where
  "runDuration w run tr =
     (if RunStartedAt run \<noteq> None \<and> \<not> IsCompleted run
      then (tr @ [ReadClock], Duration (Now w (length tr)) run)
      else (tr, Duration 0 run))"

text \<open>The loop that computes \<open>allComplete\<close>, \<open>anyFailed\<close> and \<open>failedRun\<close>.\<close>

fun scanRuns ::
  "WorkflowRun list \<Rightarrow> bool \<times> bool \<times> WorkflowRun option \<Rightarrow> bool \<times> bool \<times> WorkflowRun option" where
  "scanRuns [] acc = acc"
| "scanRuns (run # runs) (allComplete, anyFailed, failedRun) =
     scanRuns runs
       (if \<not> IsCompleted run then False else allComplete,
        if IsFailed run then True else anyFailed,
        if IsFailed run \<and> failedRun = None then Some run else failedRun)"

text \<open>The loop that takes the largest duration of the runs.\<close>

fun totalDuration_loop ::
  "world \<Rightarrow> WorkflowRun list \<Rightarrow> Duration \<Rightarrow> event list \<Rightarrow> event list \<times> Duration" where
  "totalDuration_loop w [] totalDuration tr = (tr, totalDuration)"
| "totalDuration_loop w (run # runs) totalDuration tr =
     (let (tr1, d) = runDuration w run tr
      in totalDuration_loop w runs (if d > totalDuration then d else totalDuration) tr1)"

text \<open>The loop that prints the job summary of every run on success.\<close>

fun printJobsSummaries :: "world \<Rightarrow> lib \<Rightarrow> WorkflowRun list \<Rightarrow> event list \<Rightarrow> event list" where
  "printJobsSummaries w l [] tr = tr"
| "printJobsSummaries w l (run # runs) tr =
     (let tr1 = tr @ [Print (OutWorkflow (Name run) (RunNumber run))];
          (tr2, summary) = BuildJobsSummary w l run tr1;
          summary = (if length summary > 0 \<and> hd summary = nl then tl summary else summary)
      in printJobsSummaries w l runs (tr2 @ [Print (OutStdout summary)]))"

text \<open>The loop that prints the status of every run while some run is not completed.\<close>

fun printStatuses :: "world \<Rightarrow> WorkflowRun list \<Rightarrow> event list \<Rightarrow> event list" where
  "printStatuses w [] tr = tr"
| "printStatuses w (run # runs) tr =
     (let status = (if IsCompleted run \<and> Conclusion run \<noteq> None
                    then the (Conclusion run) else Status run);
          (tr1, d) = runDuration w run tr
      in printStatuses w runs (tr1 @ [Print (OutStatus (Name run) status d)]))"

text \<open>
  The branch of the loop body taken when all runs are completed and one of them
  failed: the failure report, the notification, and the error returned.
\<close>

definition reportFailure ::
  "world \<Rightarrow> lib \<Rightarrow> params \<Rightarrow> WorkflowRun \<Rightarrow> event list \<Rightarrow> event list \<times> step" where
  "reportFailure w l p failedRun tr =
     (case BuildSummary w l failedRun (numOutputLines p) tr of
        (tr1, None) \<Rightarrow> (tr1, Done Panicked)
      | (tr1, Some data) \<Rightarrow>
          (tr1 @ [Print (OutStdout data), Print (OutFailedURL (HTMLURL failedRun)),
                  Display ''build failed''],
           Done (Returned (Some (PlainError (''Build on '' @ branch p @ '' failed!''))))))"

text \<open>The branch taken when all runs are completed and none is reported as failed.\<close>

definition reportSuccess ::
  "world \<Rightarrow> lib \<Rightarrow> params \<Rightarrow> WorkflowRun list \<Rightarrow> event list \<Rightarrow> event list \<times> step" where
  "reportSuccess w l p runs tr =
     (let (tr1, totalDuration) = totalDuration_loop w runs 0 tr;
          tr2 = printJobsSummaries w l runs tr1;
          tr3 = tr2 @ [Print OutRule, Print (OutTook (branch p) totalDuration)];
          tr4 = (if length runs > 0
                 then tr3 @ [Print (OutLink (HTMLURL (hd runs))),
                             if length (PullRequests (hd runs)) > 0
                             then Print (OutPullRequest (hd (PullRequests (hd runs))))
                             else Print (OutTree (branch p))]
                 else tr3)
      in (tr4 @ [Display (branch p @ '' build complete!'')], Done (Returned None)))"

text \<open>
  One pass through the body of the loop of \<open>doWait\<close>, for the commit \<open>tip\<close>, the start
  time of the session and the current \<open>lastPrintedAt\<close>. \<open>tip[:8]\<close> panics on a tip
  shorter than eight bytes.
\<close>

definition doWait_body ::
  "world \<Rightarrow> lib \<Rightarrow> params \<Rightarrow> string \<Rightarrow> Time \<Rightarrow> Time \<Rightarrow> event list \<Rightarrow> event list \<times> step" where
  "doWait_body w l p tip startTime lastPrintedAt tr =
     (let answer = FindWorkflowRunsForCommit w (length tr);
          tr = tr @ [CallFindWorkflowRunsForCommit answer]
      in case answer of
           Inl err \<Rightarrow>
             (if isHttpError (Some err) then
                (let tr = tr @ [Print (OutNetworkError err)];
                     (tr, lastPrintedAt) = readClock w tr;
                     (tr, done) = selectDone w (2 * Second) tr
                 in if done then (tr, Done (Returned (Some (ctxErr w))))
                    else (tr, Continue lastPrintedAt))
              else (tr, Done (Returned (Some err))))
         | Inr runs \<Rightarrow>
             (if length runs = 0 then
                (if length tip < 8 then (tr, Done Panicked)
                 else
                   (let tr = tr @ [Print (OutNoRuns (take 8 tip))];
                        (tr, lastPrintedAt) = readClock w tr;
                        (tr, done) = selectDone w (5 * Second) tr
                    in if done then (tr, Done (Returned (Some (ctxErr w))))
                       else (tr, Continue lastPrintedAt)))
              else
                (let (allComplete, anyFailed, failedRun) = scanRuns runs (True, False, None);
                     (tr, now) = readClock w tr;
                     elapsed = Round (Sub now startTime) Second
                 in if allComplete then
                      (if anyFailed \<and> failedRun \<noteq> None
                       then reportFailure w l p (the failedRun) tr
                       else reportSuccess w l p runs tr)
                    else
                      (let (tr, now) = readClock w tr;
                           (tr, lastPrintedAt) =
                             (if shouldPrint now lastPrintedAt elapsed
                              then readClock w (printStatuses w runs tr)
                              else (tr, lastPrintedAt));
                           (tr, done) = selectDone w (3 * Second) tr
                       in if done then (tr, Done (Returned (Some (ctxErr w))))
                          else (tr, Continue lastPrintedAt)))))"

text \<open>
  The loop of \<open>doWait\<close>, which has no bound of its own: the first argument bounds the
  number of passes, and a session that is still running after them has no outcome
  yet (\<open>None\<close>). The trace is returned in both cases.
\<close>

fun doWait_loop ::
  "nat \<Rightarrow> world \<Rightarrow> lib \<Rightarrow> params \<Rightarrow> string \<Rightarrow> Time \<Rightarrow> Time \<Rightarrow> event list
     \<Rightarrow> event list \<times> outcome option" where
  "doWait_loop 0 w l p tip startTime lastPrintedAt tr = (tr, None)"
| "doWait_loop (Suc fuel) w l p tip startTime lastPrintedAt tr =
     (case doWait_body w l p tip startTime lastPrintedAt tr of
        (tr1, Done out) \<Rightarrow> (tr1, Some out)
      | (tr1, Continue lastPrintedAt1) \<Rightarrow> doWait_loop fuel w l p tip startTime lastPrintedAt1 tr1)"

definition doWait :: "nat \<Rightarrow> world \<Rightarrow> lib \<Rightarrow> params \<Rightarrow> event list \<times> outcome option" where
  "doWait fuel w l p =
     (case Tip p of
        Inl err \<Rightarrow> ([], Some (Returned (Some err)))
      | Inr tip \<Rightarrow>
          (let tr = [Print (OutWaiting (branch p))];
               (tr, startTime) = readClock w tr
           in doWait_loop fuel w l p tip startTime zeroTime tr))"

text \<open>
  The answers of the polls of a trace, in order; and the answers that the claim
  about successful sessions is about: a non-empty list of runs, all completed with
  conclusion success.
\<close>

fun pollResults :: "event list \<Rightarrow> (error + WorkflowRun list) list" where
  "pollResults [] = []"
| "pollResults (CallFindWorkflowRunsForCommit answer # tr) = answer # pollResults tr"
| "pollResults (e # tr) = pollResults tr"

fun allSucceeded :: "error + WorkflowRun list \<Rightarrow> bool" where
  "allSucceeded (Inl err) = False"
| "allSucceeded (Inr runs) = (runs \<noteq> [] \<and> list_all IsSuccess runs)"

fun isGetJobLogs :: "event \<Rightarrow> bool" where
  "isGetJobLogs (CallGetJobLogs job) = True"
| "isGetJobLogs e = False"

text \<open>
  An extension of a trace without a poll and without a fetch of a job log.
\<close>

definition quiet :: "event list \<Rightarrow> bool" where
  "quiet ext \<longleftrightarrow> pollResults ext = [] \<and> (\<forall>e \<in> set ext. \<not> isGetJobLogs e)"

section \<open>Sample inputs\<close>

text \<open>
  A job list with a failed job, a run, and a world in which every fetch of a job
  log fails.
\<close>

definition sample_jobs :: "Job list" where
  "sample_jobs =
     [\<lparr>JobID = 7, JobName = ''build'', JobConclusion = Some ''failure'',
        StartedAt = None, CompletedAt = None\<rparr>,
      \<lparr>JobID = 8, JobName = ''lint-all'', JobConclusion = Some ''success'',
        StartedAt = Some 0, CompletedAt = Some (83 * Second + 456 * Millisecond)\<rparr>]"

definition sample_run :: "string \<Rightarrow> string option \<Rightarrow> WorkflowRun" where
  "sample_run status conclusion =
     \<lparr>ID = 1, Name = ''ci'', RunNumber = 12, Status = status, Conclusion = conclusion,
      HTMLURL = ''https://github.com/o/r/actions/runs/1'', UpdatedAt = 90 * Second,
      RunStartedAt = Some 0, PullRequests = []\<rparr>"

definition log_error_world :: world where
  "log_error_world =
     \<lparr>FindWorkflowRunsForCommit = (\<lambda>k. Inr [sample_run ''completed'' (Some ''failure'')]),
      ListJobs = (\<lambda>k run. Inr sample_jobs),
      GetJobLogs = (\<lambda>k job. Inl (PlainError ''HTTP 410: gone'')),
      Now = (\<lambda>k. 100 * Second),
      ctxDone = (\<lambda>k. False),
      ctxErr = PlainError ''context canceled'',
      isatty = False\<rparr>"

text \<open>
  A world in which the first poll finds the run in progress and the second finds
  it completed with success; and the arguments of a session.
\<close>

definition success_world :: world where
  "success_world =
     \<lparr>FindWorkflowRunsForCommit =
        (\<lambda>k. if k < 3 then Inr [sample_run ''in_progress'' None]
              else Inr [sample_run ''completed'' (Some ''success'')]),
      ListJobs = (\<lambda>k run. Inr [\<lparr>JobID = 8, JobName = ''lint-all'', JobConclusion = Some ''success'',
        StartedAt = Some 0, CompletedAt = Some (83 * Second + 456 * Millisecond)\<rparr>]),
      GetJobLogs = (\<lambda>k job. Inr []),
      Now = (\<lambda>k. 100 * Second),
      ctxDone = (\<lambda>k. False),
      ctxErr = PlainError ''context canceled'',
      isatty = False\<rparr>"

definition sample_params :: params where
  "sample_params = \<lparr>Tip = Inr ''0123456789abcdef0123456789abcdef01234567'', branch = ''main'',
                     numOutputLines = 100\<rparr>"



section \<open>Properties of the throttle\<close>

lemmas unit_defs = Nanosecond_def Microsecond_def Millisecond_def Second_def Minute_def

lemma durToUse_spec_interval: "durToUse elapsed = spec_interval elapsed"
  by (simp add: durToUse_def spec_interval_def unit_defs)

text \<open>
  Claim C2. For every last-print time and every elapsed duration, \<open>shouldPrint\<close> is
  true exactly when the last-print time plus the interval of the elapsed bucket is
  strictly before the current time, the interval being the step function of the
  specification's table (10 s, 15 s, 20 s, 30 s, 2 min, 3 min).
\<close>

theorem shouldPrint_step_function:
  "shouldPrint now t elapsed = (t + spec_interval elapsed < now)"
  by (simp add: shouldPrint_def Add_def Before_def durToUse_spec_interval)

text \<open>
  Claim C3, as stated, at the boundary: the last print was exactly one interval
  ago (10 s, elapsed 30 s), so \<open>now - t \<ge> interval\<close> holds, and \<open>shouldPrint\<close> is
  false.
\<close>

theorem shouldPrint_boundary_counterexample:
  "(10 * Second - 0 \<ge> spec_interval (30 * Second)) \<and> \<not> shouldPrint (10 * Second) 0 (30 * Second)"
  by (simp add: shouldPrint_def Add_def Before_def durToUse_def spec_interval_def unit_defs)

text \<open>
  Claim C3, amended. For a fixed elapsed bucket, \<open>shouldPrint\<close> is true exactly when
  the time since the last print is strictly greater than the bucket's interval;
  when it equals the interval the answer is false.
\<close>

theorem shouldPrint_strict_interval:
  "shouldPrint now t elapsed = (now - t > spec_interval elapsed)"
  by (auto simp add: shouldPrint_def Add_def Before_def durToUse_spec_interval)

section \<open>Properties of the log tail extractor\<close>

declare findBuildFailure_loop.simps [simp del] newlineIdx_values.simps [simp del]

subsection \<open>Index bounds\<close>

lemma lastIndexBelow_range:
  "lastIndexBelow s c k = - 1 \<or> (0 \<le> lastIndexBelow s c k \<and> lastIndexBelow s c k < int k)"
  by (induction k) auto

lemma LastIndexByte_range:
  "LastIndexByte s c = - 1 \<or> (0 \<le> LastIndexByte s c \<and> LastIndexByte s c < int (length s))"
  unfolding LastIndexByte_def by (rule lastIndexBelow_range)

lemma loop_in_bounds:
  "1 \<le> idx \<Longrightarrow> idx \<le> int (length log) \<Longrightarrow>
   findBuildFailure_loop log n c idx \<noteq> None \<and>
   (\<forall>i \<in> set (newlineIdx_values log n c idx). 1 \<le> i \<and> i \<le> int (length log))"
proof (induction log n c idx rule: findBuildFailure_loop.induct)
  case (1 log n c idx)
  show ?case
  proof (cases "c < n")
    case False
    with 1(2,3) show ?thesis
      by (simp add: findBuildFailure_loop.simps[of log n c idx] newlineIdx_values.simps[of log n c idx] slice_from_def)
  next
    case True
    have st: "slice_to log (idx - 1) = Some (take (nat (idx - 1)) log)"
      using 1(2,3) by (simp add: slice_to_def)
    let ?pre = "take (nat (idx - 1)) log"
    let ?p = "LastIndexByte ?pre nl"
    show ?thesis
    proof (cases "?p = - 1")
      case True
      with \<open>c < n\<close> st 1(2,3) show ?thesis
        by (simp add: findBuildFailure_loop.simps[of log n c idx] newlineIdx_values.simps[of log n c idx])
    next
      case False
      with LastIndexByte_range[of ?pre nl] have r: "0 \<le> ?p" "?p < int (length ?pre)" by auto
      then have b: "1 \<le> ?p + 1" "?p + 1 \<le> int (length log)" using 1(2,3) by auto
      have e1: "findBuildFailure_loop log n c idx = findBuildFailure_loop log n (c + 1) (?p + 1)"
        using \<open>c < n\<close> st False by (simp add: findBuildFailure_loop.simps[of log n c idx])
      have e2: "newlineIdx_values log n c idx = idx # newlineIdx_values log n (c + 1) (?p + 1)"
        using \<open>c < n\<close> st False by (simp add: newlineIdx_values.simps[of log n c idx])
      from 1(1)[OF \<open>c < n\<close> st refl False b]
      show ?thesis using 1(2,3) by (simp add: e1 e2)
    qed
  qed
qed

text \<open>
  Claim C10. For every buffer and every line count, \<open>findBuildFailure\<close> returns a
  value (no slice expression panics), and on a non-empty buffer every value that
  \<open>newlineIdx\<close> takes lies between 1 and the length of the buffer, so that
  \<open>log[:newlineIdx-1]\<close> and \<open>log[newlineIdx:]\<close> are in range.
\<close>

theorem findBuildFailure_in_bounds:
  "findBuildFailure log n \<noteq> None \<and>
   (log \<noteq> [] \<longrightarrow> (\<forall>i \<in> set (newlineIdx_values log n 0 (int (length log))). 1 \<le> i \<and> i \<le> int (length log)))"
proof (cases "log = []")
  case True
  then show ?thesis by (simp add: findBuildFailure_def)
next
  case False
  then have "1 \<le> int (length log)" by (cases log) auto
  from loop_in_bounds[OF this order_refl, of n 0] False
  show ?thesis by (simp add: findBuildFailure_def)
qed

theorem findBuildFailure_in_bounds_witness:
  "''a\<newline>b\<newline>\<newline>'' \<noteq> [] \<and>
   newlineIdx_values ''a\<newline>b\<newline>\<newline>'' 5 0 (int (length ''a\<newline>b\<newline>\<newline>'')) = [5, 4, 2] \<and>
   findBuildFailure ''a\<newline>b\<newline>\<newline>'' 5 \<noteq> None \<and>
   (1::int) \<le> 2 \<and> 5 \<le> int (length ''a\<newline>b\<newline>\<newline>'')"
proof -
  have e1: "''a\<newline>b\<newline>\<newline>'' \<noteq> []" by simp
  have e2: "newlineIdx_values ''a\<newline>b\<newline>\<newline>'' 5 0 (int (length ''a\<newline>b\<newline>\<newline>'')) = [5, 4, 2]"
    by code_simp
  note t = findBuildFailure_in_bounds[of "''a\<newline>b\<newline>\<newline>''" 5]
  from t have a: "findBuildFailure ''a\<newline>b\<newline>\<newline>'' 5 \<noteq> None" by blast
  from t e1 have "\<forall>i \<in> set (newlineIdx_values ''a\<newline>b\<newline>\<newline>'' 5 0 (int (length ''a\<newline>b\<newline>\<newline>''))).
      1 \<le> i \<and> i \<le> int (length ''a\<newline>b\<newline>\<newline>'')" by blast
  then have b: "(1::int) \<le> 2 \<and> 5 \<le> int (length ''a\<newline>b\<newline>\<newline>'')"
    unfolding e2 by simp
  from e1 e2 a b show ?thesis by blast
qed

subsection \<open>The result as the last lines of the buffer\<close>

lemma lastIndexBelow_skip:
  "j \<le> k \<Longrightarrow> (\<forall>i. j \<le> i \<and> i < k \<longrightarrow> s ! i \<noteq> c) \<Longrightarrow>
   lastIndexBelow s c k = lastIndexBelow s c j"
proof (induction k)
  case 0
  then show ?case by simp
next
  case (Suc k)
  show ?case
  proof (cases "j = Suc k")
    case True
    then show ?thesis by simp
  next
    case False
    with Suc.prems have "j \<le> k" by simp
    moreover from Suc.prems \<open>j \<le> k\<close> have "s ! k \<noteq> c" by simp
    moreover from Suc.prems have "\<forall>i. j \<le> i \<and> i < k \<longrightarrow> s ! i \<noteq> c" by simp
    ultimately show ?thesis using Suc.IH by simp
  qed
qed

lemma LastIndexByte_absent:
  assumes "c \<notin> set s"
  shows "LastIndexByte s c = - 1"
proof -
  have "\<forall>i. 0 \<le> i \<and> i < length s \<longrightarrow> s ! i \<noteq> c"
    using assms by (metis nth_mem)
  from lastIndexBelow_skip[OF _ this] show ?thesis
    by (simp add: LastIndexByte_def)
qed

lemma LastIndexByte_last_occurrence:
  assumes "c \<notin> set ys"
  shows "LastIndexByte (xs @ c # ys) c = int (length xs)"
proof -
  let ?s = "xs @ c # ys"
  have "\<forall>i. Suc (length xs) \<le> i \<and> i < length ?s \<longrightarrow> ?s ! i \<noteq> c"
  proof (intro allI impI)
    fix i assume a: "Suc (length xs) \<le> i \<and> i < length ?s"
    then have "?s ! i = ys ! (i - Suc (length xs))"
      by (simp add: nth_append nth_Cons')
    moreover from a have "i - Suc (length xs) < length ys" by auto
    ultimately show "?s ! i \<noteq> c" using assms by (metis nth_mem)
  qed
  from lastIndexBelow_skip[OF _ this]
  have "lastIndexBelow ?s c (length ?s) = lastIndexBelow ?s c (Suc (length xs))" by simp
  then show ?thesis by (simp add: LastIndexByte_def)
qed

lemma concat_split_lines: "concat (split_lines log) = log"
  by (induction log) (auto split: list.splits)

lemma split_lines_nonempty: "l \<in> set (split_lines log) \<Longrightarrow> l \<noteq> []"
  by (induction log arbitrary: l) (auto split: if_splits list.splits)

lemma split_lines_inner: "l \<in> set (split_lines log) \<Longrightarrow> nl \<notin> set (butlast l)"
  by (induction log arbitrary: l) (auto split: if_splits list.splits dest: split_lines_nonempty)

lemma split_lines_head: "split_lines log = l # ls \<Longrightarrow> l \<noteq> []"
  using split_lines_nonempty[of l log] by simp

lemma split_lines_terminated:
  "l \<in> set (butlast (split_lines log)) \<Longrightarrow> last l = nl"
  by (induction log arbitrary: l) (auto split: if_splits list.splits dest: split_lines_head)

lemma concat_take_drop: "concat ls = concat (take k ls) @ concat (drop k ls)"
proof -
  have "concat (take k ls @ drop k ls) = concat (take k ls) @ concat (drop k ls)"
    by (rule concat_append)
  then show ?thesis by simp
qed

lemma drop_concat_take:
  "drop (length (concat (take k ls))) (concat ls) = concat (drop k ls)"
  by (subst concat_take_drop[of ls k]) simp

lemma butlast_last_append: "l \<noteq> [] \<Longrightarrow> butlast l @ last l # ys = l @ ys"
proof -
  assume "l \<noteq> []"
  then have "l = butlast l @ [last l]" by simp
  then have "l @ ys = (butlast l @ [last l]) @ ys" by simp
  then show ?thesis by simp
qed

lemma loop_exit:
  "\<not> c < n \<Longrightarrow> findBuildFailure_loop log n c idx = slice_from log idx"
  by (subst findBuildFailure_loop.simps) simp

lemma loop_stop:
  "c < n \<Longrightarrow> slice_to log (idx - 1) = Some pre \<Longrightarrow> LastIndexByte pre nl = - 1 \<Longrightarrow>
   findBuildFailure_loop log n c idx = Some log"
  by (subst findBuildFailure_loop.simps) simp

lemma loop_continue:
  "c < n \<Longrightarrow> slice_to log (idx - 1) = Some pre \<Longrightarrow> LastIndexByte pre nl = p \<Longrightarrow> p \<noteq> - 1 \<Longrightarrow>
   findBuildFailure_loop log n c idx = findBuildFailure_loop log n (c + 1) (p + 1)"
  by (subst findBuildFailure_loop.simps) simp

lemma loop_lines:
  assumes cat: "concat ls = log"
    and inner: "\<forall>l \<in> set ls. l \<noteq> [] \<and> nl \<notin> set (butlast l)"
    and fin: "\<forall>l \<in> set (butlast ls). last l = nl"
  shows "1 \<le> k \<Longrightarrow> k \<le> length ls \<Longrightarrow>
    findBuildFailure_loop log n c (int (length (concat (take k ls)))) =
      Some (if int k \<le> n - c then log else concat (drop (k - nat (n - c)) ls))"
proof (induction k arbitrary: c)
  case 0
  then show ?case by simp
next
  case (Suc k)
  let ?idx = "int (length (concat (take (Suc k) ls)))"
  have klt: "k < length ls" using Suc.prems by simp
  have tk: "take (Suc k) ls = take k ls @ [ls ! k]"
    using klt by (simp add: take_Suc_conv_app_nth)
  have lk: "ls ! k \<in> set ls" using klt by simp
  then have lk_ne: "ls ! k \<noteq> []" and lk_in: "nl \<notin> set (butlast (ls ! k))"
    using inner by auto
  have len_le: "length (concat (take (Suc k) ls)) \<le> length log"
  proof -
    have "length log = length (concat (take (Suc k) ls) @ concat (drop (Suc k) ls))"
      using cat concat_take_drop[of ls "Suc k"] by simp
    then show ?thesis by simp
  qed
  show ?case
  proof (cases "c < n")
    case False
    then have "nat (n - c) = 0" "\<not> int (Suc k) \<le> n - c" by auto
    moreover have "slice_from log ?idx = Some (concat (drop (Suc k) ls))"
      using len_le drop_concat_take[of "Suc k" ls] cat by (simp add: slice_from_def)
    ultimately show ?thesis using loop_exit[OF False, of log ?idx] by simp
  next
    case True
    have pre_eq: "take (nat (?idx - 1)) log = concat (take k ls) @ butlast (ls ! k)"
    proof -
      have "log = (concat (take k ls) @ butlast (ls ! k)) @ (last (ls ! k) # concat (drop (Suc k) ls))"
      proof -
        have "ls = take k ls @ ls ! k # drop (Suc k) ls"
          using klt by (rule id_take_nth_drop)
        then have "concat ls = concat (take k ls @ ls ! k # drop (Suc k) ls)" by simp
        then have "concat ls = concat (take k ls) @ ls ! k @ concat (drop (Suc k) ls)"
          by (simp only: concat_append concat.simps)
        then show ?thesis using cat butlast_last_append[OF lk_ne] by simp
      qed
      moreover have "nat (?idx - 1) = length (concat (take k ls) @ butlast (ls ! k))"
      proof -
        have ar: "\<And>a b::nat. b \<noteq> 0 \<Longrightarrow> nat (int a + int b - 1) = a + (b - Suc 0)"
          by arith
        show ?thesis using lk_ne by (simp add: tk ar)
      qed
      ultimately show ?thesis by (metis append_eq_conv_conj)
    qed
    have st: "slice_to log (?idx - 1) = Some (concat (take k ls) @ butlast (ls ! k))"
    proof -
      have "?idx = int (length (concat (take k ls))) + int (length (ls ! k))"
        by (simp add: tk)
      moreover have "1 \<le> int (length (ls ! k))" using lk_ne by (cases "ls ! k") auto
      ultimately have "0 \<le> ?idx - 1" by linarith
      moreover have "?idx - 1 \<le> int (length log)" using len_le by linarith
      ultimately show ?thesis unfolding slice_to_def pre_eq by (simp only: if_True simp_thms)
    qed
    show ?thesis
    proof (cases k)
      case 0
      then have "LastIndexByte (concat (take k ls) @ butlast (ls ! k)) nl = - 1"
        using lk_in by (simp add: LastIndexByte_absent)
      from loop_stop[OF True st this] show ?thesis using True 0 by simp
    next
      case (Suc j)
      have jlt: "j < length ls" using klt Suc by simp
      have "ls ! j \<in> set (butlast ls)"
      proof -
        have "j < length (butlast ls)" using klt Suc by simp
        then have "butlast ls ! j \<in> set (butlast ls)" by (rule nth_mem)
        then show ?thesis using \<open>j < length (butlast ls)\<close> by (simp add: nth_butlast)
      qed
      then have lj: "last (ls ! j) = nl" using fin by simp
      have lj_ne: "ls ! j \<noteq> []" using inner jlt by simp
      have tj: "concat (take k ls) = (concat (take j ls) @ butlast (ls ! j)) @ [nl]"
        using Suc jlt lj lj_ne by (simp add: take_Suc_conv_app_nth) (metis append_butlast_last_id)
      have "LastIndexByte (concat (take k ls) @ butlast (ls ! k)) nl
              = int (length (concat (take j ls) @ butlast (ls ! j)))"
        using LastIndexByte_last_occurrence[OF lk_in, of "concat (take j ls) @ butlast (ls ! j)"]
        by (simp add: tj)
      also have "\<dots> = int (length (concat (take k ls))) - 1"
        by (simp add: tj)
      finally have p: "LastIndexByte (concat (take k ls) @ butlast (ls ! k)) nl
              = int (length (concat (take k ls))) - 1" .
      have unfold: "findBuildFailure_loop log n c ?idx
          = findBuildFailure_loop log n (c + 1) (int (length (concat (take k ls))))"
      proof -
        have "int (length (concat (take k ls))) - 1 \<noteq> - 1" by (simp add: tj)
        from loop_continue[OF True st p this] show ?thesis by simp
      qed
      have ih: "findBuildFailure_loop log n (c + 1) (int (length (concat (take k ls)))) =
          Some (if int k \<le> n - (c + 1) then log else concat (drop (k - nat (n - (c + 1))) ls))"
        using Suc.IH[of "c + 1"] Suc klt by simp
      have "nat (n - c) = Suc (nat (n - (c + 1)))" using True by simp
      then show ?thesis unfolding unfold ih by auto
    qed
  qed
qed


lemma split_lines_Nil: "split_lines log = [] \<longleftrightarrow> log = []"
  by (cases log) (auto split: list.splits)

lemma split_lines_count:
  "length (split_lines log) =
     terminated_lines log + (if log = [] \<or> last log = nl then 0 else 1)"
  by (induction log) (auto simp add: terminated_lines_def split_lines_Nil split: list.splits)

text \<open>
  Claim C1, amended. For every buffer and every line count \<open>n \<ge> 0\<close>,
  \<open>findBuildFailure\<close> returns a suffix of the buffer. The lines of the buffer are its
  newline-terminated lines and, when the buffer does not end in a newline, the
  bytes after its last newline as one more line. The result is the whole buffer
  when it has at most \<open>n\<close> lines, and otherwise exactly its last \<open>n\<close> lines. When the
  buffer is empty or ends in a newline, its lines are its newline-terminated
  lines.
\<close>

theorem findBuildFailure_last_lines:
  assumes "0 \<le> n"
  shows "\<exists>r. findBuildFailure log n = Some r \<and> suffix r log \<and>
           (if length (split_lines log) \<le> nat n then r = log else r = last_lines (nat n) log) \<and>
           (log = [] \<or> last log = nl \<longrightarrow> length (split_lines log) = terminated_lines log)"
proof -
  let ?ls = "split_lines log"
  let ?r = "if length ?ls \<le> nat n then log else last_lines (nat n) log"
  have cnt: "log = [] \<or> last log = nl \<longrightarrow> length ?ls = terminated_lines log"
    by (simp add: split_lines_count)
  have suf: "suffix ?r log"
  proof -
    have "log = concat (take (length ?ls - nat n) ?ls) @ last_lines (nat n) log"
      unfolding last_lines_def using concat_take_drop[of ?ls "length ?ls - nat n"]
      by (simp add: concat_split_lines)
    then have "suffix (last_lines (nat n) log) log" by (rule suffixI)
    then show ?thesis by simp
  qed
  have res: "findBuildFailure log n = Some ?r"
  proof (cases "log = []")
    case True
    then show ?thesis by (simp add: findBuildFailure_def)
  next
    case False
    then have ne: "?ls \<noteq> []" using concat_split_lines[of log] by auto
    then have k1: "1 \<le> length ?ls" by (cases ?ls) auto
    have inner: "\<forall>l \<in> set ?ls. l \<noteq> [] \<and> nl \<notin> set (butlast l)"
      using split_lines_nonempty split_lines_inner by blast
    have fin: "\<forall>l \<in> set (butlast ?ls). last l = nl"
      using split_lines_terminated by blast
    from loop_lines[OF concat_split_lines inner fin k1 order_refl, of n 0]
    have "findBuildFailure_loop log n 0 (int (length log)) =
        Some (if int (length ?ls) \<le> n then log else concat (drop (length ?ls - nat n) ?ls))"
      by (simp add: concat_split_lines)
    moreover have "int (length ?ls) \<le> n \<longleftrightarrow> length ?ls \<le> nat n" using assms by linarith
    ultimately show ?thesis using False
      by (simp add: findBuildFailure_def last_lines_def)
  qed
  from res suf cnt show ?thesis by (simp split: if_splits)
qed

theorem findBuildFailure_last_lines_witness:
  "(0::int) \<le> 2 \<and> last ''a\<newline>b\<newline>c\<newline>'' = nl \<and>
   \<not> length (split_lines ''a\<newline>b\<newline>c\<newline>'') \<le> nat 2 \<and>
   findBuildFailure ''a\<newline>b\<newline>c\<newline>'' 2 = Some ''b\<newline>c\<newline>'' \<and>
   length (split_lines ''a\<newline>b\<newline>c\<newline>'') = terminated_lines ''a\<newline>b\<newline>c\<newline>''"
proof -
  have h: "(0::int) \<le> 2" by simp
  have e1: "\<not> length (split_lines ''a\<newline>b\<newline>c\<newline>'') \<le> nat 2" by code_simp
  have e2: "last_lines (nat 2) ''a\<newline>b\<newline>c\<newline>'' = ''b\<newline>c\<newline>''" by code_simp
  have e3: "last ''a\<newline>b\<newline>c\<newline>'' = nl" by code_simp
  from findBuildFailure_last_lines[OF h, of "''a\<newline>b\<newline>c\<newline>''"]
  obtain r where r: "findBuildFailure ''a\<newline>b\<newline>c\<newline>'' 2 = Some r"
    and sel: "if length (split_lines ''a\<newline>b\<newline>c\<newline>'') \<le> nat 2
              then r = ''a\<newline>b\<newline>c\<newline>'' else r = last_lines (nat 2) ''a\<newline>b\<newline>c\<newline>''"
    and cnt: "''a\<newline>b\<newline>c\<newline>'' = [] \<or> last ''a\<newline>b\<newline>c\<newline>'' = nl \<longrightarrow>
              length (split_lines ''a\<newline>b\<newline>c\<newline>'') = terminated_lines ''a\<newline>b\<newline>c\<newline>''"
    by blast
  from sel e1 have "r = last_lines (nat 2) ''a\<newline>b\<newline>c\<newline>''" by (simp only: if_False)
  with r e2 have "findBuildFailure ''a\<newline>b\<newline>c\<newline>'' 2 = Some ''b\<newline>c\<newline>''" by (simp only:)
  moreover from cnt e3
  have "length (split_lines ''a\<newline>b\<newline>c\<newline>'') = terminated_lines ''a\<newline>b\<newline>c\<newline>''" by blast
  ultimately show ?thesis using h e1 e3 by blast
qed


text \<open>
  Claim C1, as stated, on a buffer that does not end in a newline: the buffer has
  one newline-terminated line, the line count is 1, and the result is the bytes
  after the newline, not the whole buffer.
\<close>

theorem findBuildFailure_unterminated_counterexample:
  "terminated_lines ''line1\<newline>line2'' \<le> 1 \<and>
   findBuildFailure ''line1\<newline>line2'' 1 = Some ''line2'' \<and>
   findBuildFailure ''line1\<newline>line2'' 1 \<noteq> Some ''line1\<newline>line2''"
  by code_simp


section \<open>Properties of the error classifier\<close>

text \<open>
  Claim C4. \<open>isHttpError\<close> returns false on a nil error; a URL error is classified
  by its underlying cause; a DNS error is retryable, also inside a URL error; an
  operation error with operation \<open>dial\<close> on network \<open>tcp\<close> is retryable and one with
  operation \<open>read\<close> is not; an unknown-network error is not retryable, nor is a URL
  error that wraps an unknown-network error or an error without network methods.
\<close>

theorem isHttpError_classification:
  "isHttpError None = False \<and>
   isHttpError (Some (UrlError op url cause)) = isHttpError_switch cause \<and>
   isHttpError (Some (DNSError msg name isTimeout)) = True \<and>
   isHttpError (Some (UrlError op url (Some (DNSError msg name isTimeout)))) = True \<and>
   isHttpError (Some (OpError ''dial'' ''tcp'' cause)) = True \<and>
   isHttpError (Some (OpError ''read'' net cause)) = False \<and>
   isHttpError (Some (UnknownNetworkError msg)) = False \<and>
   isHttpError (Some (UrlError op url (Some (UnknownNetworkError msg)))) = False \<and>
   isHttpError (Some (UrlError op url (Some (PlainError msg)))) = False"
  by simp

text \<open>
  Claim C5 fails on an operation error whose operation is not \<open>dial\<close>: a read on a
  TCP connection that timed out reports \<open>Timeout() = true\<close>, and \<open>isHttpError\<close> returns
  false for it, bare or inside a URL error, because the case \<open>*net.OpError\<close> is tried
  before the case \<open>net.Error\<close>.
\<close>

theorem isHttpError_read_timeout:
  "Timeout (OpError ''read'' ''tcp'' (Some (NetError ''i/o timeout'' True))) = True \<and>
   isHttpError (Some (OpError ''read'' ''tcp'' (Some (NetError ''i/o timeout'' True)))) = False \<and>
   isHttpError (Some (UrlError ''Get'' ''https://example.com''
      (Some (OpError ''read'' ''tcp'' (Some (NetError ''i/o timeout'' True)))))) = False"
  by simp

section \<open>Properties of the run duration\<close>

lemma go_rem_nonneg: "0 \<le> d \<Longrightarrow> 0 < m \<Longrightarrow> go_rem d m = d mod m"
  by (simp add: go_rem_def sgn_if)

lemma Round_nonneg:
  assumes "0 \<le> d" "d \<le> maxDuration"
  shows "0 \<le> Round d Second"
proof -
  have m: "0 < Second" by (simp add: unit_defs)
  let ?r = "d mod Second"
  have r: "0 \<le> ?r" "?r < Second" "?r \<le> d" using m assms by (auto simp add: zmod_le_nonneg_dividend)
  have w1: "wrap64 (d - ?r) = d - ?r"
    using r assms unfolding wrap64_def maxDuration_def by (simp add: mod_pos_pos_trivial)
  show ?thesis
  proof (cases "lessThanHalf ?r Second")
    case True
    then show ?thesis using m assms r w1
      by (simp add: Round_def go_rem_nonneg Let_def)
  next
    case False
    have "0 \<le> maxDuration" by (simp add: maxDuration_def)
    then show ?thesis using m assms r False
      by (auto simp add: Round_def go_rem_nonneg Let_def)
  qed
qed

lemma Sub_nonneg: "u \<le> t \<Longrightarrow> 0 \<le> Sub t u \<and> Sub t u \<le> maxDuration"
  by (simp add: Sub_def minDuration_def maxDuration_def)

lemma wrap64_id: "minDuration \<le> x \<Longrightarrow> x \<le> maxDuration \<Longrightarrow> wrap64 x = x"
  unfolding wrap64_def minDuration_def maxDuration_def
  by (simp add: mod_pos_pos_trivial)

lemma Round_negative_iff:
  assumes lo: "minDuration \<le> d" and hi: "d \<le> maxDuration"
  shows "Round d Second < 0 \<longleftrightarrow> d \<le> - (500 * Millisecond)"
proof (cases "0 \<le> d")
  case True
  from Round_nonneg[OF True hi] True show ?thesis by (simp add: unit_defs)
next
  case False
  then have neg: "d < 0" by simp
  have m: "0 < Second" "Second = 1000000000" by (simp_all add: unit_defs)
  let ?r = "\<bar>d\<bar> mod Second"
  have gr: "- go_rem d Second = ?r" using neg m(1) by (simp add: go_rem_def sgn_if)
  have r: "0 \<le> ?r" "?r < Second" "?r \<le> \<bar>d\<bar>"
    using m(1) by (auto simp add: zmod_le_nonneg_dividend)
  show ?thesis
  proof (cases "lessThanHalf ?r Second")
    case True
    have "minDuration \<le> d + ?r" "d + ?r \<le> maxDuration"
      using lo r neg by (auto simp add: maxDuration_def)
    then have w: "wrap64 (d + ?r) = d + ?r" by (rule wrap64_id)
    have res: "Round d Second = d + ?r"
      using neg m(1) True gr w by (simp add: Round_def Let_def)
    show ?thesis
    proof (cases "\<bar>d\<bar> < Second")
      case True
      then have "?r = \<bar>d\<bar>" by (simp add: mod_pos_pos_trivial)
      then show ?thesis using res neg \<open>lessThanHalf ?r Second\<close>
        by (simp add: lessThanHalf_def unit_defs)
    next
      case False
      then show ?thesis using res neg r by (simp add: unit_defs)
    qed
  next
    case False
    have "minDuration < 0" by (simp add: minDuration_def)
    then have "Round d Second < 0"
      using neg m(1) False gr by (auto simp add: Round_def Let_def)
    moreover have "d \<le> - (500 * Millisecond)"
      using False r neg by (simp add: lessThanHalf_def unit_defs)
    ultimately show ?thesis by simp
  qed
qed

lemma Sub_range: "minDuration \<le> Sub t u \<and> Sub t u \<le> maxDuration"
  by (simp add: Sub_def minDuration_def maxDuration_def)

lemma Sub_half_second: "Sub t u \<le> - (500 * Millisecond) \<longleftrightarrow> t + 500 * Millisecond \<le> u"
  by (auto simp add: Sub_def minDuration_def maxDuration_def unit_defs)

text \<open>
  Claim C6, amended. \<open>Duration()\<close> is zero when the start timestamp is absent.
  Otherwise it is \<open>end - start\<close>, saturated to the range of a duration and rounded
  to whole seconds, where \<open>end\<close> is the last-update timestamp of a completed run and
  the current time of any other run; it is not negative whenever \<open>end\<close> is not
  before the start timestamp, and it is negative exactly when \<open>end\<close> is before the
  start timestamp by half a second or more.
\<close>

theorem Duration_value:
  "(RunStartedAt r = None \<longrightarrow> Duration now r = 0) \<and>
   (\<forall>start. RunStartedAt r = Some start \<longrightarrow>
      Duration now r = Round (Sub (if IsCompleted r then UpdatedAt r else now) start) Second \<and>
      (start \<le> (if IsCompleted r then UpdatedAt r else now) \<longrightarrow> 0 \<le> Duration now r) \<and>
      (Duration now r < 0 \<longleftrightarrow>
         (if IsCompleted r then UpdatedAt r else now) + 500 * Millisecond \<le> start))"
proof -
  have a: "0 \<le> Round (Sub e start) Second" if "start \<le> e" for e start
    using Sub_nonneg[OF that] Round_nonneg by blast
  have b: "Round (Sub e start) Second < 0 \<longleftrightarrow> e + 500 * Millisecond \<le> start" for e start
    using Round_negative_iff[of "Sub e start"] Sub_range[of e start] Sub_half_second[of e start]
    by blast
  show ?thesis using a b by (auto simp add: Duration_def Let_def)
qed

theorem Duration_value_witness:
  "RunStartedAt \<lparr>ID = 1, Name = ''ci'', RunNumber = 1, Status = ''completed'',
       Conclusion = Some ''success'', HTMLURL = [], UpdatedAt = 300 * Second + 400 * Millisecond,
       RunStartedAt = Some 0, PullRequests = []\<rparr> = Some 0 \<and>
   Duration 0 \<lparr>ID = 1, Name = ''ci'', RunNumber = 1, Status = ''completed'',
       Conclusion = Some ''success'', HTMLURL = [], UpdatedAt = 300 * Second + 400 * Millisecond,
       RunStartedAt = Some 0, PullRequests = []\<rparr> = 300 * Second \<and>
   0 \<le> Duration 0 \<lparr>ID = 1, Name = ''ci'', RunNumber = 1, Status = ''completed'',
       Conclusion = Some ''success'', HTMLURL = [], UpdatedAt = 300 * Second + 400 * Millisecond,
       RunStartedAt = Some 0, PullRequests = []\<rparr>"
  using Duration_value[of "\<lparr>ID = 1, Name = ''ci'', RunNumber = 1, Status = ''completed'',
       Conclusion = Some ''success'', HTMLURL = [], UpdatedAt = 300 * Second + 400 * Millisecond,
       RunStartedAt = Some 0, PullRequests = []\<rparr>" 0]
  by (simp add: IsCompleted_def Round_def Sub_def go_rem_def lessThanHalf_def wrap64_def
      minDuration_def maxDuration_def unit_defs Let_def)

text \<open>
  Claim C6, as stated, on a completed run whose last-update timestamp is ten
  seconds before its start timestamp: the duration is minus ten seconds.
\<close>

theorem Duration_negative_counterexample:
  "Duration 0 \<lparr>ID = 1, Name = ''ci'', RunNumber = 1, Status = ''completed'',
       Conclusion = Some ''success'', HTMLURL = [], UpdatedAt = 0,
       RunStartedAt = Some (10 * Second), PullRequests = []\<rparr> = - (10 * Second) \<and>
   - (10 * Second) < (0::int)"
  by (simp add: Duration_def IsCompleted_def Round_def Sub_def go_rem_def lessThanHalf_def wrap64_def
      minDuration_def maxDuration_def unit_defs Let_def)


section \<open>Properties of the job summary builder\<close>

lemma bjs_loop_failed_indep:
  "snd (buildJobsSummary_loop t1 l jobs (w1, fj)) = snd (buildJobsSummary_loop t2 l jobs (w2, fj))"
  by (induction jobs arbitrary: w1 w2 fj) auto

lemma bjs_loop_no_failed:
  "\<forall>j \<in> set jobs. \<not> Failed j \<Longrightarrow>
   buildJobsSummary_loop t1 l jobs acc = buildJobsSummary_loop t2 l jobs acc"
  by (induction jobs arbitrary: acc) (auto simp add: jobLine_def durString_def)

lemma jobLine_length:
  "length (jobLine False l job) \<le> length (jobLine True l job) \<and>
   (Failed job \<longrightarrow> length (jobLine False l job) < length (jobLine True l job))"
  by (simp add: jobLine_def durString_def pad_right_def)

lemma bjs_loop_length_le:
  "length w1 \<le> length w2 \<Longrightarrow>
   length (fst (buildJobsSummary_loop False l jobs (w1, f1)))
     \<le> length (fst (buildJobsSummary_loop True l jobs (w2, f2)))"
proof (induction jobs arbitrary: w1 w2 f1 f2)
  case Nil
  then show ?case by simp
next
  case (Cons job jobs)
  have "length (w1 @ jobLine False l job) \<le> length (w2 @ jobLine True l job)"
    using Cons.prems jobLine_length[of l job] by simp
  from Cons.IH[OF this] show ?case by simp
qed

lemma bjs_loop_length_less:
  "length w1 < length w2 \<Longrightarrow>
   length (fst (buildJobsSummary_loop False l jobs (w1, f1)))
     < length (fst (buildJobsSummary_loop True l jobs (w2, f2)))"
proof (induction jobs arbitrary: w1 w2 f1 f2)
  case Nil
  then show ?case by simp
next
  case (Cons job jobs)
  have "length (w1 @ jobLine False l job) < length (w2 @ jobLine True l job)"
    using Cons.prems jobLine_length[of l job] by simp
  from Cons.IH[OF this] show ?case by simp
qed

lemma bjs_loop_length_failed:
  "length w1 \<le> length w2 \<Longrightarrow> \<exists>j \<in> set jobs. Failed j \<Longrightarrow>
   length (fst (buildJobsSummary_loop False l jobs (w1, f1)))
     < length (fst (buildJobsSummary_loop True l jobs (w2, f2)))"
proof (induction jobs arbitrary: w1 w2 f1 f2)
  case Nil
  then show ?case by simp
next
  case (Cons job jobs)
  show ?case
  proof (cases "Failed job")
    case True
    then have "length (w1 @ jobLine False l job) < length (w2 @ jobLine True l job)"
      using Cons.prems(1) jobLine_length[of l job] by simp
    from bjs_loop_length_less[OF this] show ?thesis by simp
  next
    case False
    then have ex: "\<exists>j \<in> set jobs. Failed j" using Cons.prems(2) by auto
    have "length (w1 @ jobLine False l job) \<le> length (w2 @ jobLine True l job)"
      using Cons.prems(1) jobLine_length[of l job] by simp
    from Cons.IH[OF this ex] show ?thesis by simp
  qed
qed

text \<open>
  Claim C9, amended. \<open>buildJobsSummary\<close> is a function of the job list and of
  whether standard output is a terminal. The selected failed job depends on the
  job list only; the rendered table depends on the job list only when no job of
  the list failed; and when a job of the list failed, the text written to the
  tabwriter on a terminal differs from the text written otherwise.
\<close>

theorem buildJobsSummary_terminal_dependence:
  "snd (buildJobsSummary tty1 l jobs) = snd (buildJobsSummary tty2 l jobs) \<and>
   ((\<forall>j \<in> set jobs. \<not> Failed j) \<longrightarrow>
      buildJobsSummary tty1 l jobs = buildJobsSummary tty2 l jobs) \<and>
   ((\<exists>j \<in> set jobs. Failed j) \<longrightarrow>
      fst (buildJobsSummary_loop True l jobs ([], None))
        \<noteq> fst (buildJobsSummary_loop False l jobs ([], None)))"
proof -
  have "snd (buildJobsSummary tty1 l jobs) = snd (buildJobsSummary tty2 l jobs)"
    using bjs_loop_failed_indep[of tty1 l jobs "[]" None tty2 "[]"]
    by (simp add: buildJobsSummary_def split_beta)
  moreover have "buildJobsSummary tty1 l jobs = buildJobsSummary tty2 l jobs"
    if "\<forall>j \<in> set jobs. \<not> Failed j"
    using bjs_loop_no_failed[OF that, of tty1 l "([], None)" tty2]
    by (simp add: buildJobsSummary_def)
  moreover have "fst (buildJobsSummary_loop True l jobs ([], None))
        \<noteq> fst (buildJobsSummary_loop False l jobs ([], None))"
    if "\<exists>j \<in> set jobs. Failed j"
    using bjs_loop_length_failed[OF _ that, of "[]" "[]" l None None] by auto
  ultimately show ?thesis by blast
qed

theorem buildJobsSummary_terminal_dependence_witness:
  "\<not> Failed \<lparr>JobID = 8, JobName = ''lint'', JobConclusion = Some ''success'',
              StartedAt = Some 0, CompletedAt = Some Second\<rparr> \<and>
   buildJobsSummary True golib
     [\<lparr>JobID = 8, JobName = ''lint'', JobConclusion = Some ''success'',
        StartedAt = Some 0, CompletedAt = Some Second\<rparr>] =
   buildJobsSummary False golib
     [\<lparr>JobID = 8, JobName = ''lint'', JobConclusion = Some ''success'',
        StartedAt = Some 0, CompletedAt = Some Second\<rparr>] \<and>
   Failed \<lparr>JobID = 7, JobName = ''build'', JobConclusion = Some ''failure'',
            StartedAt = None, CompletedAt = None\<rparr> \<and>
   fst (buildJobsSummary_loop True golib
     [\<lparr>JobID = 7, JobName = ''build'', JobConclusion = Some ''failure'',
        StartedAt = None, CompletedAt = None\<rparr>] ([], None)) \<noteq>
   fst (buildJobsSummary_loop False golib
     [\<lparr>JobID = 7, JobName = ''build'', JobConclusion = Some ''failure'',
        StartedAt = None, CompletedAt = None\<rparr>] ([], None))"
proof -
  have ok: "\<not> Failed \<lparr>JobID = 8, JobName = ''lint'', JobConclusion = Some ''success'',
              StartedAt = Some 0, CompletedAt = Some Second\<rparr>"
    by (simp add: Failed_def)
  have bad: "Failed \<lparr>JobID = 7, JobName = ''build'', JobConclusion = Some ''failure'',
            StartedAt = None, CompletedAt = None\<rparr>"
    by (simp add: Failed_def)
  from buildJobsSummary_terminal_dependence[of True golib
     "[\<lparr>JobID = 8, JobName = ''lint'', JobConclusion = Some ''success'',
        StartedAt = Some 0, CompletedAt = Some Second\<rparr>]" False] ok
  have a: "buildJobsSummary True golib
     [\<lparr>JobID = 8, JobName = ''lint'', JobConclusion = Some ''success'',
        StartedAt = Some 0, CompletedAt = Some Second\<rparr>] =
   buildJobsSummary False golib
     [\<lparr>JobID = 8, JobName = ''lint'', JobConclusion = Some ''success'',
        StartedAt = Some 0, CompletedAt = Some Second\<rparr>]"
    by simp
  from buildJobsSummary_terminal_dependence[of True golib
     "[\<lparr>JobID = 7, JobName = ''build'', JobConclusion = Some ''failure'',
        StartedAt = None, CompletedAt = None\<rparr>]" False] bad
  have b: "fst (buildJobsSummary_loop True golib
     [\<lparr>JobID = 7, JobName = ''build'', JobConclusion = Some ''failure'',
        StartedAt = None, CompletedAt = None\<rparr>] ([], None)) \<noteq>
   fst (buildJobsSummary_loop False golib
     [\<lparr>JobID = 7, JobName = ''build'', JobConclusion = Some ''failure'',
        StartedAt = None, CompletedAt = None\<rparr>] ([], None))"
    by simp
  from ok a bad b show ?thesis by blast
qed


text \<open>
  Claim C9, as stated, on a list with one failed job: the table rendered for a
  terminal differs from the table rendered otherwise.
\<close>

theorem buildJobsSummary_isatty_counterexample:
  "fst (buildJobsSummary True golib
      [\<lparr>JobID = 7, JobName = ''build'', JobConclusion = Some ''failure'', StartedAt = None, CompletedAt = None\<rparr>])
   \<noteq> fst (buildJobsSummary False golib
      [\<lparr>JobID = 7, JobName = ''build'', JobConclusion = Some ''failure'', StartedAt = None, CompletedAt = None\<rparr>])"
  by code_simp


section \<open>Properties of the failure report\<close>

lemma findBuildFailure_total: "findBuildFailure log n \<noteq> None"
proof (cases "log = []")
  case True
  then show ?thesis by (simp add: findBuildFailure_def)
next
  case False
  then have "1 \<le> int (length log)" by (cases log) auto
  from loop_in_bounds[OF this order_refl, of n 0] False
  show ?thesis by (simp add: findBuildFailure_def)
qed

lemma findBuildFailure_Nil: "findBuildFailure [] n = Some []"
  by (simp add: findBuildFailure_def)

lemma buildJobsSummary_head:
  "buildJobsSummary t l jobs = (summary, fj) \<Longrightarrow> \<exists>rest. summary = nl # rest"
  by (auto simp add: buildJobsSummary_def split: prod.splits)

lemma renderSummary_table:
  "renderSummary (nl # rest) [] n = Some (tableOnly (nl # rest))"
  by (auto simp add: renderSummary_def slice_from_def tableOnly_def Let_def)

lemma renderSummary_excerpt:
  "failure \<noteq> [] \<Longrightarrow>
   renderSummary (nl # rest) failure n = Some (tableOnly (nl # rest) @ excerptHeader n @ failure)"
  by (auto simp add: renderSummary_def slice_from_def tableOnly_def excerptHeader_def Let_def)

text \<open>
  Claim C8. When the jobs were listed, \<open>BuildSummary\<close> returns the table without a
  log excerpt if no job failed or if fetching the failed job's log returned an
  error; and a result other than that table is the table followed by the header
  and a non-empty excerpt of a log that was fetched without error. The index of
  the fetch in the trace is the one after the listing of the jobs.
\<close>

theorem BuildSummary_swallows_log_error:
  assumes jobs: "ListJobs w (length tr) (ID run) = Inr jobs"
    and sm: "buildJobsSummary (isatty w) l jobs = (summary, failedJob)"
  shows "(failedJob = None \<or>
          (\<exists>job err. failedJob = Some job \<and> GetJobLogs w (Suc (length tr)) (JobID job) = Inl err)
          \<longrightarrow> snd (BuildSummary w l run n tr) = Some (tableOnly summary)) \<and>
         (snd (BuildSummary w l run n tr) \<noteq> Some (tableOnly summary) \<longrightarrow>
          (\<exists>job logs failure. failedJob = Some job \<and>
             GetJobLogs w (Suc (length tr)) (JobID job) = Inr logs \<and> logs \<noteq> [] \<and>
             findBuildFailure logs n = Some failure \<and> failure \<noteq> [] \<and>
             snd (BuildSummary w l run n tr) = Some (tableOnly summary @ excerptHeader n @ failure)))"
proof -
  from buildJobsSummary_head[OF sm] obtain rest where s: "summary = nl # rest" by blast
  show ?thesis
  proof (cases failedJob)
    case None
    then show ?thesis using jobs sm s
      by (simp add: BuildSummary_def renderSummary_table)
  next
    case (Some job)
    show ?thesis
    proof (cases "GetJobLogs w (Suc (length tr)) (JobID job)")
      case (Inl err)
      then show ?thesis using jobs sm s Some
        by (simp add: BuildSummary_def renderSummary_table)
    next
      case (Inr logs)
      from findBuildFailure_total[of logs n] obtain failure
        where f: "findBuildFailure logs n = Some failure" by auto
      show ?thesis
      proof (cases "failure = []")
        case True
        then show ?thesis using jobs sm s Some Inr f
          by (simp add: BuildSummary_def renderSummary_table)
      next
        case False
        then have "logs \<noteq> []" using f findBuildFailure_Nil by auto
        then show ?thesis using jobs sm s Some Inr f False
          by (simp add: BuildSummary_def renderSummary_excerpt)
      qed
    qed
  qed
qed


theorem BuildSummary_swallows_log_error_witness:
  "ListJobs log_error_world 0 1 = Inr sample_jobs \<and>
   GetJobLogs log_error_world 1 7 = Inl (PlainError ''HTTP 410: gone'') \<and>
   snd (BuildSummary log_error_world golib (sample_run ''completed'' (Some ''failure'')) 100 []) =
     Some ''\<newline>build    0s\<newline>lint-all 1m23s\<newline>\<newline>===========''"
proof -
  have e1: "ListJobs log_error_world (length ([]::event list))
      (ID (sample_run ''completed'' (Some ''failure''))) = Inr sample_jobs"
    by (simp add: log_error_world_def)
  have e2: "buildJobsSummary (isatty log_error_world) golib sample_jobs =
      (''\<newline>build    0s\<newline>lint-all 1m23s\<newline>'', Some (hd sample_jobs))"
    by code_simp
  have e3: "tableOnly ''\<newline>build    0s\<newline>lint-all 1m23s\<newline>'' =
      ''\<newline>build    0s\<newline>lint-all 1m23s\<newline>\<newline>==========='' "
    by code_simp
  have e4: "GetJobLogs log_error_world (Suc (length ([]::event list))) (JobID (hd sample_jobs)) =
      Inl (PlainError ''HTTP 410: gone'')"
    by (simp add: log_error_world_def)
  have e5: "ListJobs log_error_world 0 1 = Inr sample_jobs \<and>
      GetJobLogs log_error_world 1 7 = Inl (PlainError ''HTTP 410: gone'')"
    by (simp add: log_error_world_def)
  from BuildSummary_swallows_log_error[OF e1 e2, of 100] e4
  have "snd (BuildSummary log_error_world golib (sample_run ''completed'' (Some ''failure'')) 100 []) =
      Some (tableOnly ''\<newline>build    0s\<newline>lint-all 1m23s\<newline>'')"
    by blast
  then show ?thesis using e3 e5 by simp
qed

section \<open>Properties of the run monitor\<close>

lemma pollResults_append: "pollResults (a @ b) = pollResults a @ pollResults b"
  by (induction a rule: pollResults.induct) auto

lemma quiet_Nil: "quiet []"
  by (simp add: quiet_def)

lemma quiet_append: "quiet a \<Longrightarrow> quiet b \<Longrightarrow> quiet (a @ b)"
  by (auto simp add: quiet_def pollResults_append)

lemma quiet_simps:
  "quiet [ReadClock]" "quiet [Select d]" "quiet [Print x]" "quiet [Display s]" "quiet [CallListJobs i]"
  by (simp_all add: quiet_def)

lemma runDuration_ext: "\<exists>ext. fst (runDuration w run tr) = tr @ ext \<and> quiet ext"
  by (auto simp add: runDuration_def quiet_simps intro: quiet_Nil)

lemma totalDuration_loop_ext:
  "\<exists>ext. fst (totalDuration_loop w runs t tr) = tr @ ext \<and> quiet ext"
proof (induction runs arbitrary: t tr)
  case Nil
  show ?case by (auto intro: quiet_Nil)
next
  case (Cons run runs)
  obtain e1 where e1: "fst (runDuration w run tr) = tr @ e1" "quiet e1"
    using runDuration_ext by blast
  obtain d where d: "runDuration w run tr = (tr @ e1, d)" using e1(1) by (cases "runDuration w run tr") auto
  from Cons[of "if d > t then d else t" "tr @ e1"] obtain e2
    where e2: "fst (totalDuration_loop w runs (if d > t then d else t) (tr @ e1)) = (tr @ e1) @ e2" "quiet e2"
    by blast
  have "fst (totalDuration_loop w (run # runs) t tr) = tr @ (e1 @ e2)"
    using d e2(1) by simp
  then show ?case using quiet_append[OF e1(2) e2(2)] by blast
qed

lemma BuildJobsSummary_ext: "fst (BuildJobsSummary w l run tr) = tr @ [CallListJobs (ID run)]"
  by (simp add: BuildJobsSummary_def split: sum.splits)

lemma printJobsSummaries_ext:
  "\<exists>ext. printJobsSummaries w l runs tr = tr @ ext \<and> quiet ext"
proof (induction runs arbitrary: tr)
  case Nil
  show ?case by (auto intro: quiet_Nil)
next
  case (Cons run runs)
  let ?tr1 = "tr @ [Print (OutWorkflow (Name run) (RunNumber run))]"
  obtain sm where sm: "BuildJobsSummary w l run ?tr1 = (?tr1 @ [CallListJobs (ID run)], sm)"
    using BuildJobsSummary_ext[of w l run ?tr1] by (cases "BuildJobsSummary w l run ?tr1") auto
  let ?sm = "if length sm > 0 \<and> hd sm = nl then tl sm else sm"
  let ?tr3 = "(?tr1 @ [CallListJobs (ID run)]) @ [Print (OutStdout ?sm)]"
  from Cons[of ?tr3] obtain e where e: "printJobsSummaries w l runs ?tr3 = ?tr3 @ e" "quiet e" by blast
  have "printJobsSummaries w l (run # runs) tr =
      tr @ ([Print (OutWorkflow (Name run) (RunNumber run))] @ [CallListJobs (ID run)] @ [Print (OutStdout ?sm)] @ e)"
    using sm e(1) by (simp add: Let_def)
  moreover have "quiet ([Print (OutWorkflow (Name run) (RunNumber run))] @ [CallListJobs (ID run)] @ [Print (OutStdout ?sm)] @ e)"
    by (intro quiet_append quiet_simps e(2))
  ultimately show ?case by blast
qed

lemma printStatuses_ext:
  "\<exists>ext. printStatuses w runs tr = tr @ ext \<and> quiet ext"
proof (induction runs arbitrary: tr)
  case Nil
  show ?case by (auto intro: quiet_Nil)
next
  case (Cons run runs)
  obtain e1 where e1: "fst (runDuration w run tr) = tr @ e1" "quiet e1"
    using runDuration_ext by blast
  obtain d where d: "runDuration w run tr = (tr @ e1, d)" using e1(1) by (cases "runDuration w run tr") auto
  let ?st = "if IsCompleted run \<and> Conclusion run \<noteq> None then the (Conclusion run) else Status run"
  let ?tr2 = "(tr @ e1) @ [Print (OutStatus (Name run) ?st d)]"
  from Cons[of ?tr2] obtain e where e: "printStatuses w runs ?tr2 = ?tr2 @ e" "quiet e" by blast
  have "printStatuses w (run # runs) tr = tr @ (e1 @ [Print (OutStatus (Name run) ?st d)] @ e)"
    using d e(1) by (simp add: Let_def)
  moreover have "quiet (e1 @ [Print (OutStatus (Name run) ?st d)] @ e)"
    by (intro quiet_append quiet_simps e1(2) e(2))
  ultimately show ?case by blast
qed


lemma reportSuccess_ext:
  "\<exists>ext. reportSuccess w l p runs tr = (tr @ ext, Done (Returned None)) \<and> quiet ext"
proof -
  obtain e1 where e1: "fst (totalDuration_loop w runs 0 tr) = tr @ e1" "quiet e1"
    using totalDuration_loop_ext by blast
  obtain t where t: "totalDuration_loop w runs 0 tr = (tr @ e1, t)"
    using e1(1) by (cases "totalDuration_loop w runs 0 tr") auto
  obtain e2 where e2: "printJobsSummaries w l runs (tr @ e1) = (tr @ e1) @ e2" "quiet e2"
    using printJobsSummaries_ext by blast
  let ?links = "if length runs > 0
                 then [Print (OutLink (HTMLURL (hd runs))),
                       if length (PullRequests (hd runs)) > 0
                       then Print (OutPullRequest (hd (PullRequests (hd runs))))
                       else Print (OutTree (branch p))]
                 else []"
  let ?ext = "e1 @ e2 @ [Print OutRule, Print (OutTook (branch p) t)] @ ?links
                @ [Display (branch p @ '' build complete!'')]"
  have "reportSuccess w l p runs tr = (tr @ ?ext, Done (Returned None))"
    using t e2(1) by (cases "runs = []") (simp_all add: reportSuccess_def Let_def)
  moreover have "quiet ?links" by (auto simp add: quiet_def)
  then have "quiet ?ext"
    using e1(2) e2(2) by (intro quiet_append) (simp_all add: quiet_def)
  ultimately show ?thesis by blast
qed

lemma BuildSummary_ext:
  "\<exists>ext. fst (BuildSummary w l run n tr) = tr @ ext \<and> pollResults ext = []"
  by (auto simp add: BuildSummary_def Let_def split: sum.splits prod.splits option.splits)

lemma reportFailure_ext:
  "\<exists>ext out. reportFailure w l p run tr = (tr @ ext, Done out) \<and> pollResults ext = [] \<and>
     out \<noteq> Returned None"
proof -
  obtain e1 where e1: "fst (BuildSummary w l run (numOutputLines p) tr) = tr @ e1" "pollResults e1 = []"
    using BuildSummary_ext by blast
  obtain d where d: "BuildSummary w l run (numOutputLines p) tr = (tr @ e1, d)"
    using e1(1) by (cases "BuildSummary w l run (numOutputLines p) tr") auto
  show ?thesis
  proof (cases d)
    case None
    then show ?thesis using d e1(2) by (auto simp add: reportFailure_def)
  next
    case (Some data)
    then have "reportFailure w l p run tr =
      (tr @ (e1 @ [Print (OutStdout data), Print (OutFailedURL (HTMLURL run)), Display ''build failed'']),
       Done (Returned (Some (PlainError (''Build on '' @ branch p @ '' failed!'')))))"
      using d by (simp add: reportFailure_def)
    moreover have "pollResults (e1 @ [Print (OutStdout data), Print (OutFailedURL (HTMLURL run)), Display ''build failed'']) = []"
      using e1(2) by (simp add: pollResults_append)
    ultimately show ?thesis by blast
  qed
qed

lemma IsSuccess_props: "IsSuccess r \<Longrightarrow> IsCompleted r \<and> \<not> IsFailed r"
  by (auto simp add: IsSuccess_def IsFailed_def Let_def)

lemma scanRuns_all_success:
  "list_all IsSuccess runs \<Longrightarrow> scanRuns runs (a, f, fr) = (a, f, fr)"
  by (induction runs arbitrary: a f fr) (auto dest: IsSuccess_props)

lemma doWait_body_props:
  assumes "doWait_body w l p tip startTime lp tr = (tr1, st)"
  shows "\<exists>ext. tr1 = tr @ CallFindWorkflowRunsForCommit (FindWorkflowRunsForCommit w (length tr)) # ext \<and>
     pollResults ext = [] \<and>
     (allSucceeded (FindWorkflowRunsForCommit w (length tr)) \<longrightarrow>
        st = Done (Returned None) \<and> (\<forall>e \<in> set ext. \<not> isGetJobLogs e)) \<and>
     (\<forall>lp1. st = Continue lp1 \<longrightarrow>
        \<not> allSucceeded (FindWorkflowRunsForCommit w (length tr)) \<and> (\<forall>e \<in> set ext. \<not> isGetJobLogs e))"
proof (cases "FindWorkflowRunsForCommit w (length tr)")
  case (Inl err)
  then show ?thesis using assms
    by (auto simp add: doWait_body_def Let_def readClock_def selectDone_def split: if_splits)
next
  case (Inr runs)
  let ?tr0 = "tr @ [CallFindWorkflowRunsForCommit (Inr runs)]"
  show ?thesis
  proof (cases "runs = []")
    case True
    then show ?thesis using assms Inr
      by (auto simp add: doWait_body_def Let_def readClock_def selectDone_def split: if_splits)
  next
    case False
    obtain ac af fr where sc: "scanRuns runs (True, False, None) = (ac, af, fr)"
      by (cases "scanRuns runs (True, False, None)") auto
    let ?tr1 = "?tr0 @ [ReadClock]"
    show ?thesis
    proof (cases ac)
      case True
      note ac = this
      show ?thesis
      proof (cases "af \<and> fr \<noteq> None")
        case True
        then have nots: "\<not> allSucceeded (Inr runs)"
          using scanRuns_all_success[of runs True False None] sc by auto
        from reportFailure_ext[of w l p "the fr" ?tr1] obtain ext out
          where rf: "reportFailure w l p (the fr) ?tr1 = (?tr1 @ ext, Done out)" "pollResults ext = []"
          by blast
        have "doWait_body w l p tip startTime lp tr = (?tr1 @ ext, Done out)"
          using Inr False sc ac True rf(1)
          by (simp add: doWait_body_def Let_def readClock_def)
        then have "tr1 = tr @ CallFindWorkflowRunsForCommit (Inr runs) # (ReadClock # ext)" "st = Done out"
          using assms by auto
        then show ?thesis using nots rf(2) Inr by auto
      next
        case False
        from reportSuccess_ext[of w l p runs ?tr1] obtain ext
          where rs: "reportSuccess w l p runs ?tr1 = (?tr1 @ ext, Done (Returned None))" "quiet ext"
          by blast
        have "doWait_body w l p tip startTime lp tr = (?tr1 @ ext, Done (Returned None))"
          using Inr \<open>runs \<noteq> []\<close> sc ac False rs(1)
          by (auto simp add: doWait_body_def Let_def readClock_def)
        then have "tr1 = tr @ CallFindWorkflowRunsForCommit (Inr runs) # (ReadClock # ext)"
          "st = Done (Returned None)"
          using assms by auto
        then show ?thesis using rs(2) Inr by (auto simp add: quiet_def)
      qed
    next
      case False
      then have nots: "\<not> allSucceeded (Inr runs)"
        using scanRuns_all_success[of runs True False None] sc by auto
      let ?tr2 = "?tr1 @ [ReadClock]"
      obtain e where e: "printStatuses w runs ?tr2 = ?tr2 @ e" "quiet e"
        using printStatuses_ext by blast
      have "\<exists>ext. tr1 = ?tr0 @ ext \<and> quiet ext"
      proof (cases "shouldPrint (Now w (length ?tr1)) lp (Round (Sub (Now w (length ?tr0)) startTime) Second)")
        case True
        then have "tr1 = ?tr0 @ ([ReadClock] @ [ReadClock] @ e @ [ReadClock] @ [Select (3 * Second)])"
          using assms Inr \<open>runs \<noteq> []\<close> sc False e(1)
          by (auto simp add: doWait_body_def Let_def readClock_def selectDone_def split: if_splits)
        moreover have "quiet ([ReadClock] @ [ReadClock] @ e @ [ReadClock] @ [Select (3 * Second)])"
          by (intro quiet_append quiet_simps e(2))
        ultimately show ?thesis by blast
      next
        case no: False
        then have "tr1 = ?tr0 @ ([ReadClock] @ [ReadClock] @ [Select (3 * Second)])"
          using assms Inr \<open>runs \<noteq> []\<close> sc False
          by (auto simp add: doWait_body_def Let_def readClock_def selectDone_def split: if_splits)
        moreover have "quiet ([ReadClock] @ [ReadClock] @ [Select (3 * Second)])"
          by (intro quiet_append quiet_simps)
        ultimately show ?thesis by blast
      qed
      then obtain ext where "tr1 = tr @ CallFindWorkflowRunsForCommit (Inr runs) # ext" "quiet ext"
        by auto
      then show ?thesis using nots Inr by (auto simp add: quiet_def)
    qed
  qed
qed


lemma doWait_loop_props:
  "doWait_loop fuel w l p tip startTime lp tr = (tr', out) \<Longrightarrow>
   \<exists>ext. tr' = tr @ ext \<and>
     (\<forall>x \<in> set (pollResults ext). allSucceeded x \<longrightarrow>
        out = Some (Returned None) \<and> (\<forall>e \<in> set ext. \<not> isGetJobLogs e) \<and>
        (\<exists>ps. pollResults ext = ps @ [x] \<and> (\<forall>y \<in> set ps. \<not> allSucceeded y)))"
proof (induction fuel arbitrary: lp tr)
  case 0
  then show ?case by simp
next
  case (Suc fuel)
  obtain tr1 st where b: "doWait_body w l p tip startTime lp tr = (tr1, st)"
    by (cases "doWait_body w l p tip startTime lp tr") auto
  let ?a = "FindWorkflowRunsForCommit w (length tr)"
  from doWait_body_props[OF b] obtain e where
    e: "tr1 = tr @ CallFindWorkflowRunsForCommit ?a # e" "pollResults e = []"
       "allSucceeded ?a \<longrightarrow> st = Done (Returned None) \<and> (\<forall>e \<in> set e. \<not> isGetJobLogs e)"
       "\<forall>lp1. st = Continue lp1 \<longrightarrow> \<not> allSucceeded ?a \<and> (\<forall>e \<in> set e. \<not> isGetJobLogs e)"
    by blast
  show ?case
  proof (cases st)
    case (Done o1)
    then have "tr' = tr @ CallFindWorkflowRunsForCommit ?a # e" "out = Some o1"
      using Suc.prems b e(1) by auto
    moreover have "pollResults (CallFindWorkflowRunsForCommit ?a # e) = [?a]"
      using e(2) by simp
    ultimately show ?thesis using e(3) Done by auto
  next
    case (Continue lp1)
    then have r: "doWait_loop fuel w l p tip startTime lp1 tr1 = (tr', out)"
      using Suc.prems b by simp
    from Suc.IH[OF r] obtain ext where
      ext: "tr' = tr1 @ ext"
        "\<forall>x \<in> set (pollResults ext). allSucceeded x \<longrightarrow>
          out = Some (Returned None) \<and> (\<forall>e \<in> set ext. \<not> isGetJobLogs e) \<and>
          (\<exists>ps. pollResults ext = ps @ [x] \<and> (\<forall>y \<in> set ps. \<not> allSucceeded y))"
      by blast
    from e(4) Continue have na: "\<not> allSucceeded ?a" and ng: "\<forall>e \<in> set e. \<not> isGetJobLogs e"
      by auto
    let ?ext = "CallFindWorkflowRunsForCommit ?a # e @ ext"
    have t: "tr' = tr @ ?ext" using ext(1) e(1) by simp
    have pr: "pollResults ?ext = ?a # pollResults ext"
      using e(2) by (simp add: pollResults_append)
    have "out = Some (Returned None) \<and> (\<forall>e \<in> set ?ext. \<not> isGetJobLogs e) \<and>
        (\<exists>ps. pollResults ?ext = ps @ [x] \<and> (\<forall>y \<in> set ps. \<not> allSucceeded y))"
      if x: "x \<in> set (pollResults ?ext)" "allSucceeded x" for x
    proof -
      from x na pr have "x \<in> set (pollResults ext)" by auto
      with ext(2) x(2) obtain ps where
        "out = Some (Returned None)" "\<forall>e \<in> set ext. \<not> isGetJobLogs e"
        "pollResults ext = ps @ [x]" "\<forall>y \<in> set ps. \<not> allSucceeded y"
        by blast
      moreover then have "pollResults ?ext = (?a # ps) @ [x]" "\<forall>y \<in> set (?a # ps). \<not> allSucceeded y"
        using pr na by auto
      ultimately show ?thesis using ng by (metis Un_iff isGetJobLogs.simps(2) set_ConsD set_append)
    qed
    then show ?thesis using t by blast
  qed
qed

text \<open>
  Claim C7. In every session, for every number of passes that the loop is
  followed, if a poll of the trace returned a non-empty list of runs that are all
  completed with conclusion success, then the session has ended with the result
  nil, that poll is the last poll of the session and no earlier poll returned such
  a list, and the trace of the session contains no fetch of a job log.
\<close>

theorem doWait_success_session:
  assumes run: "doWait fuel w l p = (tr, out)"
    and poll: "x \<in> set (pollResults tr)"
    and good: "allSucceeded x"
  shows "out = Some (Returned None) \<and> (\<forall>e \<in> set tr. \<not> isGetJobLogs e) \<and>
         (\<exists>ps. pollResults tr = ps @ [x] \<and> (\<forall>y \<in> set ps. \<not> allSucceeded y))"
proof (cases "Tip p")
  case (Inl err)
  then have "tr = []" using run by (simp add: doWait_def)
  then show ?thesis using poll by simp
next
  case (Inr tip)
  let ?tr0 = "[Print (OutWaiting (branch p)), ReadClock]"
  from run Inr have "doWait_loop fuel w l p tip (Now w 1) zeroTime ?tr0 = (tr, out)"
    by (simp add: doWait_def readClock_def Let_def)
  from doWait_loop_props[OF this] obtain ext where
    ext: "tr = ?tr0 @ ext"
      "\<forall>x \<in> set (pollResults ext). allSucceeded x \<longrightarrow>
          out = Some (Returned None) \<and> (\<forall>e \<in> set ext. \<not> isGetJobLogs e) \<and>
          (\<exists>ps. pollResults ext = ps @ [x] \<and> (\<forall>y \<in> set ps. \<not> allSucceeded y))"
    by blast
  have pr: "pollResults tr = pollResults ext" using ext(1) by simp
  with poll good ext(2) obtain ps where
    "out = Some (Returned None)" "\<forall>e \<in> set ext. \<not> isGetJobLogs e"
    "pollResults ext = ps @ [x]" "\<forall>y \<in> set ps. \<not> allSucceeded y"
    by metis
  then show ?thesis using ext(1) pr by auto
qed

theorem doWait_success_session_witness:
  "allSucceeded (Inr [sample_run ''completed'' (Some ''success'')]) \<and>
   pollResults (fst (doWait 5 success_world golib sample_params)) =
     [Inr [sample_run ''in_progress'' None], Inr [sample_run ''completed'' (Some ''success'')]] \<and>
   snd (doWait 5 success_world golib sample_params) = Some (Returned None) \<and>
   list_all (\<lambda>e. \<not> isGetJobLogs e) (fst (doWait 5 success_world golib sample_params))"
proof -
  have e1: "pollResults (fst (doWait 5 success_world golib sample_params)) =
     [Inr [sample_run ''in_progress'' None], Inr [sample_run ''completed'' (Some ''success'')]]"
    by code_simp
  have e2: "allSucceeded (Inr [sample_run ''completed'' (Some ''success'')])"
    by code_simp
  have run: "doWait 5 success_world golib sample_params =
     (fst (doWait 5 success_world golib sample_params), snd (doWait 5 success_world golib sample_params))"
    by simp
  have poll: "Inr [sample_run ''completed'' (Some ''success'')]
     \<in> set (pollResults (fst (doWait 5 success_world golib sample_params)))"
    unfolding e1 by simp
  from doWait_success_session[OF run poll e2]
  have "snd (doWait 5 success_world golib sample_params) = Some (Returned None) \<and>
     (\<forall>e \<in> set (fst (doWait 5 success_world golib sample_params)). \<not> isGetJobLogs e)"
    by blast
  then show ?thesis using e1 e2 by (simp add: list_all_iff)
qed


end
